theory Spec2Isabelle
  imports Main "HOL-Library.Word" "HOL-Library.Sublist" "HOL-Library.Char_ord"
    "HOL-Library.List_Lexorder"
begin

chapter \<open>The model\<close>

section \<open>The filesystem as the compression engine sees it\<close>

text \<open>
  The package \<^verbatim>\<open>pcscompress\<close> reads the filesystem through \<^verbatim>\<open>os.Stat\<close>,
  \<^verbatim>\<open>filepath.Walk\<close>, \<^verbatim>\<open>os.ReadDir\<close>, \<^verbatim>\<open>os.Open\<close> and \<^verbatim>\<open>syscall.Statfs\<close>.
  The model is a tree of regular files and directories (no symbolic links) that nothing
  but the call itself changes while the call runs: \<^verbatim>\<open>os.Create\<close> adds the archive file.
  Every system call that can fail carries its outcome in the tree, so that each error
  branch of the Go code is a branch of the model.
\<close>

type_synonym int64 = "64 word"

text \<open>
  The errors of system calls: the two that \<^verbatim>\<open>os.IsPermission\<close> accepts, the one that
  \<^verbatim>\<open>os.IsNotExist\<close> accepts, and \<open>EIO n\<close> for any other error, \<open>n\<close> its number.
\<close>

datatype oserr = EACCES | EPERM | ENOENT | EIO nat

definition os_IsPermission :: "oserr \<Rightarrow> bool" where
  "os_IsPermission e = (e = EACCES \<or> e = EPERM)"

definition os_IsNotExist :: "oserr \<Rightarrow> bool" where
  "os_IsNotExist e = (e = ENOENT)"

text \<open>
  What the code can observe of a regular file: its size (\<^verbatim>\<open>info.Size()\<close>), and the outcome
  of each call made on it while it is archived, \<open>None\<close> for success.
\<close>

record finfo =
  f_size :: nat
  f_header :: "oserr option"
  f_create :: "oserr option"
  f_open :: "oserr option"
  f_copy :: "oserr option"

text \<open>
  A directory carries the outcome of reading its names, the outcome of writing its marker
  entry to the archive, and its children in the lexical order in which \<^verbatim>\<open>filepath.Walk\<close>
  and \<^verbatim>\<open>os.ReadDir\<close> return them. \<open>NoStat d e\<close> is a name whose \<^verbatim>\<open>lstat\<close> fails with
  \<open>e\<close>; \<open>d\<close> is what the directory entry's type says (\<^verbatim>\<open>entry.IsDir()\<close>).
\<close>

datatype node =
    File finfo
  | Dir "oserr option" "oserr option" "(string \<times> node) list"
  | NoStat bool oserr

fun IsDir :: "node \<Rightarrow> bool" where
  "IsDir (File a) = False"
| "IsDir (Dir re me cs) = True"
| "IsDir (NoStat d e) = d"

fun Size :: "node \<Rightarrow> int64" where
  "Size (File a) = of_nat (f_size a)"
| "Size (Dir re me cs) = 0"
| "Size (NoStat d e) = 0"

text \<open>
  The operating system and the path functions of the standard library that depend on it.
  \<open>fs_lookup\<close> is \<^verbatim>\<open>os.Stat\<close>/\<^verbatim>\<open>os.Lstat\<close> of a path handed in by the caller (a
  \<open>NoStat\<close> node when it fails); \<open>fs_statfs\<close> gives \<^verbatim>\<open>Bavail\<close> and \<^verbatim>\<open>Bsize\<close>, or
  \<open>None\<close> when \<^verbatim>\<open>syscall.Statfs\<close> returns an error; \<open>fs_create\<close> is the outcome of
  \<^verbatim>\<open>os.Create\<close>; \<open>clock\<close> is \<^verbatim>\<open>time.Now().Format("20060102_150405")\<close>.
  \<open>path_Below dir path\<close> gives the names that lead from the directory \<open>dir\<close> down to
  \<open>path\<close>, or \<open>None\<close> when \<open>path\<close> does not lie below \<open>dir\<close>. \<open>fs_archive\<close> is what a
  walk observes of the archive file while it is being written: its size at that moment
  and the outcome of each call made on it, the copy of the file into itself included,
  which is taken to end, at the end of the file or with an error. \<open>zip_close\<close> and \<open>file_close\<close> are the
  outcomes of \<^verbatim>\<open>zipWriter.Close\<close>, which flushes the buffered entries and writes the
  central directory, and of \<^verbatim>\<open>zipFile.Close\<close>.
\<close>

record world =
  fs_lookup :: "string \<Rightarrow> node"
  fs_statfs :: "string \<Rightarrow> (int64 \<times> int64) option"
  fs_create :: "string \<Rightarrow> oserr option"
  path_Base :: "string \<Rightarrow> string"
  path_Dir :: "string \<Rightarrow> string"
  path_Join :: "string \<Rightarrow> string \<Rightarrow> string"
  path_Abs :: "string \<Rightarrow> oserr + string"
  clock :: string
  path_Below :: "string \<Rightarrow> string \<Rightarrow> string list option"
  fs_archive :: finfo
  zip_close :: "string \<Rightarrow> oserr option"
  file_close :: "string \<Rightarrow> oserr option"

subsection \<open>filepath.Walk\<close>

text \<open>
  A \<^verbatim>\<open>WalkFunc\<close> returns \<^verbatim>\<open>nil\<close>, \<^verbatim>\<open>filepath.SkipDir\<close> or another error. A walked
  path is the root together with the names below it; the callback receives those names,
  the node (its \<^verbatim>\<open>FileInfo\<close>), the error of \<^verbatim>\<open>lstat\<close> or of reading the directory, and
  the state it mutates. The walk is that of the Go releases that have \<^verbatim>\<open>os.ReadDir\<close>:
  the callback is called once for a directory, after its names have been read, with the
  error of reading them.
\<close>

datatype 'e walk_ret = WNil | SkipDir | WErr 'e

type_synonym ('s, 'e) WalkFunc =
  "string list \<Rightarrow> node \<Rightarrow> oserr option \<Rightarrow> 's \<Rightarrow> 'e walk_ret \<times> 's"

fun walk :: "('s, 'e) WalkFunc \<Rightarrow> string list \<Rightarrow> node \<Rightarrow> 's \<Rightarrow> 'e walk_ret \<times> 's"
  and walk_names ::
    "('s, 'e) WalkFunc \<Rightarrow> string list \<Rightarrow> (string \<times> node) list \<Rightarrow> 's \<Rightarrow> 'e walk_ret \<times> 's"
  where
  "walk fn p (File a) s = fn p (File a) None s"
| "walk fn p (NoStat d e) s = fn p (NoStat d e) (Some e) s"
| "walk fn p (Dir re me cs) s =
     (case fn p (Dir re me cs) re s of
        (err1, s1) \<Rightarrow>
          if re = None \<and> err1 = WNil then walk_names fn p cs s1 else (err1, s1))"
| "walk_names fn p [] s = (WNil, s)"
| "walk_names fn p ((name, c) # cs) s =
     (case c of
        NoStat d e \<Rightarrow>
          (case fn (p @ [name]) c (Some e) s of
             (err, s1) \<Rightarrow>
               if err = WNil \<or> err = SkipDir then walk_names fn p cs s1 else (err, s1))
      | _ \<Rightarrow>
          (case walk fn (p @ [name]) c s of
             (err, s1) \<Rightarrow>
               if err = WNil \<or> (IsDir c \<and> err = SkipDir) then walk_names fn p cs s1
               else (err, s1)))"

text \<open>
  \<^verbatim>\<open>Walk\<close> itself: \<^verbatim>\<open>Lstat\<close> of the root, the callback with the error when it fails
  (the \<open>NoStat\<close> equation of \<open>walk\<close>), and \<^verbatim>\<open>SkipDir\<close> turned into \<^verbatim>\<open>nil\<close>.
\<close>

definition filepath_Walk ::
  "('s, 'e) WalkFunc \<Rightarrow> node \<Rightarrow> 's \<Rightarrow> 'e walk_ret \<times> 's" where
  "filepath_Walk fn root s =
     (case walk fn [] root s of
        (err, s1) \<Rightarrow> if err = SkipDir then (WNil, s1) else (err, s1))"

text \<open>
  The strings the callbacks compute from a walked path: \<^verbatim>\<open>filepath.Base(path)\<close> is the
  last name, or the base name of the root for the root itself; \<^verbatim>\<open>path\<close> is the root
  joined with the names; \<^verbatim>\<open>filepath.Rel(root, path)\<close> is the names separated by the
  path separator, or \<^verbatim>\<open>.\<close> for the root.
\<close>

definition walked_Base :: "world \<Rightarrow> string \<Rightarrow> string list \<Rightarrow> string" where
  "walked_Base w root p = (if p = [] then path_Base w root else last p)"

definition walked_path :: "world \<Rightarrow> string \<Rightarrow> string list \<Rightarrow> string" where
  "walked_path w root p = foldl (path_Join w) root p"

fun sep_join :: "string list \<Rightarrow> string" where
  "sep_join [] = []"
| "sep_join [n] = n"
| "sep_join (n # m # ns) = n @ ''/'' @ sep_join (m # ns)"

definition walked_Rel :: "string list \<Rightarrow> string" where
  "walked_Rel p = (if p = [] then ''.'' else sep_join p)"

definition hidden_name :: "string \<Rightarrow> bool" where
  "hidden_name base = (prefix ''.'' base \<and> base \<noteq> ''.'' \<and> base \<noteq> ''..'')"

section \<open>CompressTask\<close>

record CompressOptions =
  Depth :: int
  IncludeHidden :: bool
  CompressionLevel :: int

record CompressTask =
  SourcePath :: string
  TargetZipPath :: string
  Options :: CompressOptions
  TotalFiles :: int64
  TotalSize :: int64
  CompressedSize :: int64
  ProcessedFiles :: int64

text \<open>
  The causes an archive walk can stop on, and the errors of a result. The directory-empty
  error is an anonymous \<^verbatim>\<open>errors.New\<close> in the source; \<open>ErrCountFailed\<close> and \<open>ErrOther\<close>
  are the wrapped and the passed-through system error.
\<close>

datatype cause = OsErr oserr | WriteFailed string oserr

datatype cerror =
    ErrSourceNotExist
  | ErrSourceNotDirectory
  | ErrPermissionDenied
  | ErrDiskSpaceInsufficient
  | ErrCompressFailed cause
  | ErrCreateZipFailed oserr
  | ErrEmptyDirectory
  | ErrCountFailed oserr
  | ErrOther oserr

record CompressResult =
  Success :: bool
  r_SourcePath :: string
  r_TargetZipPath :: string
  r_TotalFiles :: int64
  r_TotalSize :: int64
  r_CompressedSize :: int64
  Error :: "cerror option"

definition NewCompressTask ::
  "string \<Rightarrow> string \<Rightarrow> CompressOptions option \<Rightarrow> CompressTask" where
  "NewCompressTask sourcePath targetZipPath opts =
     (let opts1 = (case opts of
                     None \<Rightarrow> \<lparr>Depth = - 1, IncludeHidden = False, CompressionLevel = 6\<rparr>
                   | Some o1 \<Rightarrow> o1)
      in \<lparr>SourcePath = sourcePath, TargetZipPath = targetZipPath, Options = opts1,
           TotalFiles = 0, TotalSize = 0, CompressedSize = 0, ProcessedFiles = 0\<rparr>)"

subsection \<open>countFiles\<close>

definition countFiles_fn :: "world \<Rightarrow> (CompressTask, oserr) WalkFunc" where
  "countFiles_fn w p info err ct =
     (case err of
        Some e \<Rightarrow> (WErr e, ct)
      | None \<Rightarrow>
          if \<not> IncludeHidden (Options ct) \<and> hidden_name (walked_Base w (SourcePath ct) p)
          then (if IsDir info then (SkipDir, ct) else (WNil, ct))
          else if \<not> IsDir info
          then (WNil, ct\<lparr>TotalFiles := TotalFiles ct + 1,
                          TotalSize := TotalSize ct + Size info\<rparr>)
          else (WNil, ct))"

definition countFiles :: "world \<Rightarrow> CompressTask \<Rightarrow> oserr walk_ret \<times> CompressTask" where
  "countFiles w ct = filepath_Walk (countFiles_fn w) (fs_lookup w (SourcePath ct)) ct"

subsection \<open>checkDiskSpace\<close>

definition checkDiskSpace :: "world \<Rightarrow> CompressTask \<Rightarrow> cerror option" where
  "checkDiskSpace w ct =
     (let targetDir = path_Dir w (TargetZipPath ct);
          targetDir1 = (if targetDir = [] then ''.'' else targetDir)
      in case fs_statfs w targetDir1 of
           None \<Rightarrow> None
         | Some (bavail, bsize) \<Rightarrow>
             (let freeSpace = bavail * bsize;
                  estimatedSize = TotalSize ct
              in if sint freeSpace < sint estimatedSize
                 then Some ErrDiskSpaceInsufficient else None))"

subsection \<open>Execute\<close>

text \<open>
  The archive is the list of entries written so far. \<open>DirMarker\<close> is an entry made by
  \<^verbatim>\<open>zipWriter.Create(zipPath + "/")\<close>, \<open>FileEntry\<close> one made by
  \<^verbatim>\<open>zipWriter.CreateHeader\<close>. Progress callbacks and the printed warning are recorded
  as events; the system calls of one \<open>Execute\<close> are recorded in order.
\<close>

datatype zip_entry = DirMarker string | FileEntry string

datatype event = Progress int64 int64 string | Warning string

datatype os_op =
    OpStat string
  | OpWalk string
  | OpStatfs string
  | OpCreate string
  | OpZipClose string
  | OpClose string

record zstate =
  z_task :: CompressTask
  z_entries :: "zip_entry list"
  z_processedFiles :: int64
  z_compressedSize :: int64
  z_events :: "event list"

definition updateProgress ::
  "bool \<Rightarrow> int64 \<Rightarrow> int64 \<Rightarrow> string \<Rightarrow> CompressTask \<Rightarrow> CompressTask \<times> event list" where
  "updateProgress onProgress processed compressed currentFile ct =
     (ct\<lparr>ProcessedFiles := processed, CompressedSize := compressed\<rparr>,
      if onProgress then [Progress processed (TotalFiles ct) currentFile] else [])"

definition ReplaceAll_backslash :: "string \<Rightarrow> string" where
  "ReplaceAll_backslash s = map (\<lambda>c. if c = CHR 0x5C then CHR ''/'' else c) s"

text \<open>
  The callback of the second walk. \<open>onProgress\<close> says whether \<^verbatim>\<open>ct.OnProgress\<close> is set.
  The \<open>NoStat\<close> case is never reached with \<open>err = None\<close>: the walk reports a failed
  \<^verbatim>\<open>lstat\<close> through \<open>err\<close>.
\<close>

definition archive_fn :: "world \<Rightarrow> bool \<Rightarrow> string \<Rightarrow> (zstate, cause) WalkFunc" where
  "archive_fn w onProgress sourceBase p info err zs =
     (let ct = z_task zs in
      case err of
        Some e \<Rightarrow> (WErr (OsErr e), zs)
      | None \<Rightarrow>
          if \<not> IncludeHidden (Options ct) \<and> hidden_name (walked_Base w (SourcePath ct) p)
          then (if IsDir info then (SkipDir, zs) else (WNil, zs))
          else
            (let relPath = walked_Rel p;
                 zipPath = ReplaceAll_backslash (path_Join w sourceBase relPath);
                 path = walked_path w (SourcePath ct) p
             in case info of
                  Dir re me cs \<Rightarrow>
                    (case me of
                       Some e \<Rightarrow> (WErr (OsErr e), zs)
                     | None \<Rightarrow>
                         (WNil, zs\<lparr>z_entries := z_entries zs @ [DirMarker (zipPath @ ''/'')]\<rparr>))
                | NoStat d e \<Rightarrow> (WErr (OsErr e), zs)
                | File a \<Rightarrow>
                    (case f_header a of
                       Some e \<Rightarrow> (WErr (OsErr e), zs)
                     | None \<Rightarrow>
                    (case f_create a of
                       Some e \<Rightarrow> (WErr (OsErr e), zs)
                     | None \<Rightarrow>
                    (let zs1 = zs\<lparr>z_entries := z_entries zs @ [FileEntry zipPath]\<rparr> in
                     case f_open a of
                       Some e \<Rightarrow>
                         if os_IsPermission e
                         then (WNil, zs1\<lparr>z_events := z_events zs1 @ [Warning path]\<rparr>)
                         else (WErr (OsErr e), zs1)
                     | None \<Rightarrow>
                    (case f_copy a of
                       Some e \<Rightarrow> (WErr (WriteFailed path e), zs1)
                     | None \<Rightarrow>
                         (let processedFiles = z_processedFiles zs1 + 1;
                              compressedSize = z_compressedSize zs1 + Size info
                          in case updateProgress onProgress processedFiles compressedSize path ct of
                               (ct1, evs) \<Rightarrow>
                                 (WNil, zs1\<lparr>z_task := ct1,
                                             z_processedFiles := processedFiles,
                                             z_compressedSize := compressedSize,
                                             z_events := z_events zs1 @ evs\<rparr>))))))))"

text \<open>
  \<^verbatim>\<open>os.Create\<close> makes the target file, or truncates it, before the second walk starts.
  When the target lies below the source directory the second walk therefore finds the
  archive file in the tree, at its place in the order of the names.
\<close>

fun put_file :: "string list \<Rightarrow> node \<Rightarrow> node \<Rightarrow> node"
  and put_names :: "string \<Rightarrow> string list \<Rightarrow> node \<Rightarrow> (string \<times> node) list \<Rightarrow> (string \<times> node) list"
  where
  "put_file [] f nd = nd"
| "put_file (n # ns) f (File a) = File a"
| "put_file (n # ns) f (NoStat d e) = NoStat d e"
| "put_file (n # ns) f (Dir re me cs) = Dir re me (put_names n ns f cs)"
| "put_names n ns f [] = (if ns = [] then [(n, f)] else [])"
| "put_names n ns f ((name, c) # cs) =
     (if n = name then (if ns = [] then (n, f) # cs else (name, put_file ns f c) # cs)
      else if ns = [] \<and> n < name then (n, f) # (name, c) # cs
      else (name, c) # put_names n ns f cs)"

definition created :: "world \<Rightarrow> string \<Rightarrow> string \<Rightarrow> node \<Rightarrow> node" where
  "created w source target root =
     (case path_Below w source target of
        None \<Rightarrow> root
      | Some names \<Rightarrow> put_file names (File (fs_archive w)) root)"

text \<open>
  What one \<open>Execute\<close> gives back and does. \<open>x_archive\<close> is \<open>None\<close> as long as
  \<^verbatim>\<open>os.Create\<close> has not made the target file, and the entries handed to the zip writer
  once it has. \<open>x_dropped\<close> holds the errors that the two deferred calls of \<^verbatim>\<open>Close\<close>
  returned: the code does not look at them, and the archive on disk is complete only when
  there is none.
\<close>

record exec_out =
  x_result :: CompressResult
  x_task :: CompressTask
  x_archive :: "zip_entry list option"
  x_ops :: "os_op list"
  x_events :: "event list"
  x_dropped :: "oserr list"

text \<open>
  \<open>Execute\<close>, statement by statement. The second walk runs on the tree as \<^verbatim>\<open>os.Create\<close>
  has left it; the deferred calls run behind it, on both of its exits. Closing a file that
  was opened for reading, start and end times and the duration are not part of the model.
\<close>

definition Execute :: "world \<Rightarrow> bool \<Rightarrow> CompressTask \<Rightarrow> exec_out" where
  "Execute w onProgress ct =
     (let result = \<lparr>Success = False, r_SourcePath = SourcePath ct,
                     r_TargetZipPath = TargetZipPath ct, r_TotalFiles = 0, r_TotalSize = 0,
                     r_CompressedSize = 0, Error = None\<rparr>;
          sourceInfo = fs_lookup w (SourcePath ct);
          ops1 = [OpStat (SourcePath ct)]
      in case sourceInfo of
           NoStat d e \<Rightarrow>
             \<lparr>x_result = result\<lparr>Error :=
                  Some (if os_IsPermission e then ErrPermissionDenied
                        else if os_IsNotExist e then ErrSourceNotExist
                        else ErrOther e)\<rparr>,
              x_task = ct, x_archive = None, x_ops = ops1, x_events = [], x_dropped = []\<rparr>
         | _ \<Rightarrow>
       if \<not> IsDir sourceInfo
       then \<lparr>x_result = result\<lparr>Error := Some ErrSourceNotDirectory\<rparr>,
             x_task = ct, x_archive = None, x_ops = ops1, x_events = [], x_dropped = []\<rparr>
       else
       (let ops2 = ops1 @ [OpWalk (SourcePath ct)] in
        case countFiles w ct of
          (WErr e, ct1) \<Rightarrow>
            \<lparr>x_result = result\<lparr>Error := Some (ErrCountFailed e)\<rparr>,
             x_task = ct1, x_archive = None, x_ops = ops2, x_events = [], x_dropped = []\<rparr>
        | (_, ct1) \<Rightarrow>
       if TotalFiles ct1 = 0
       then \<lparr>x_result = result\<lparr>Error := Some ErrEmptyDirectory\<rparr>,
             x_task = ct1, x_archive = None, x_ops = ops2, x_events = [], x_dropped = []\<rparr>
       else
       (let ops3 = ops2 @ [OpStatfs (let d = path_Dir w (TargetZipPath ct1)
                                     in if d = [] then ''.'' else d)] in
        case checkDiskSpace w ct1 of
          Some e \<Rightarrow>
            \<lparr>x_result = result\<lparr>Error := Some e\<rparr>,
             x_task = ct1, x_archive = None, x_ops = ops3, x_events = [], x_dropped = []\<rparr>
        | None \<Rightarrow>
       (let ops4 = ops3 @ [OpCreate (TargetZipPath ct1)] in
        case fs_create w (TargetZipPath ct1) of
          Some e \<Rightarrow>
            \<lparr>x_result = result\<lparr>Error :=
                 Some (if os_IsPermission e then ErrPermissionDenied
                       else ErrCreateZipFailed e)\<rparr>,
             x_task = ct1, x_archive = None, x_ops = ops4, x_events = [], x_dropped = []\<rparr>
        | None \<Rightarrow>
       (let ops5 = ops4 @ [OpWalk (SourcePath ct1), OpZipClose (TargetZipPath ct1),
                           OpClose (TargetZipPath ct1)];
            dropped = (case zip_close w (TargetZipPath ct1) of None \<Rightarrow> [] | Some e \<Rightarrow> [e]) @
                      (case file_close w (TargetZipPath ct1) of None \<Rightarrow> [] | Some e \<Rightarrow> [e]);
            sourceBase = path_Base w (SourcePath ct1);
            zs0 = \<lparr>z_task = ct1, z_entries = [], z_processedFiles = 0,
                   z_compressedSize = 0, z_events = []\<rparr>
        in case filepath_Walk (archive_fn w onProgress sourceBase)
                  (created w (SourcePath ct1) (TargetZipPath ct1) sourceInfo) zs0 of
             (WErr c, zs) \<Rightarrow>
               \<lparr>x_result = result\<lparr>Error := Some (ErrCompressFailed c)\<rparr>,
                x_task = z_task zs, x_archive = Some (z_entries zs), x_ops = ops5,
                x_events = z_events zs, x_dropped = dropped\<rparr>
           | (_, zs) \<Rightarrow>
               \<lparr>x_result = result\<lparr>Success := True,
                                   r_TotalFiles := TotalFiles (z_task zs),
                                   r_TotalSize := TotalSize (z_task zs),
                                   r_CompressedSize := z_compressedSize zs\<rparr>,
                x_task = z_task zs, x_archive = Some (z_entries zs), x_ops = ops5,
                x_events = z_events zs, x_dropped = dropped\<rparr>)))))"

subsection \<open>What the specification counts\<close>

text \<open>
  Following the specification's words: a path segment beginning with \<^verbatim>\<open>.\<close> (other than
  \<^verbatim>\<open>.\<close> and \<^verbatim>\<open>..\<close>) is hidden; when hidden entries are excluded, hidden directories are
  pruned entirely and hidden files are omitted. \<open>eligible inc name nd\<close> lists the eligible
  files at and below the node \<open>nd\<close> called \<open>name\<close>; \<open>eligible_dirs\<close> counts the
  directories that are not pruned, \<open>empty_dirs\<close> those of them that have no entry at all.
\<close>

fun eligible :: "bool \<Rightarrow> string \<Rightarrow> node \<Rightarrow> finfo list"
  and eligible_names :: "bool \<Rightarrow> (string \<times> node) list \<Rightarrow> finfo list"
  where
  "eligible inc name (File a) = (if \<not> inc \<and> hidden_name name then [] else [a])"
| "eligible inc name (NoStat d e) = []"
| "eligible inc name (Dir re me cs) =
     (if \<not> inc \<and> hidden_name name then [] else eligible_names inc cs)"
| "eligible_names inc [] = []"
| "eligible_names inc ((name, c) # cs) = eligible inc name c @ eligible_names inc cs"

fun eligible_dirs :: "bool \<Rightarrow> string \<Rightarrow> node \<Rightarrow> nat"
  and eligible_dirs_names :: "bool \<Rightarrow> (string \<times> node) list \<Rightarrow> nat"
  where
  "eligible_dirs inc name (File a) = 0"
| "eligible_dirs inc name (NoStat d e) = 0"
| "eligible_dirs inc name (Dir re me cs) =
     (if \<not> inc \<and> hidden_name name then 0 else Suc (eligible_dirs_names inc cs))"
| "eligible_dirs_names inc [] = 0"
| "eligible_dirs_names inc ((name, c) # cs) =
     eligible_dirs inc name c + eligible_dirs_names inc cs"

fun empty_dirs :: "bool \<Rightarrow> string \<Rightarrow> node \<Rightarrow> nat"
  and empty_dirs_names :: "bool \<Rightarrow> (string \<times> node) list \<Rightarrow> nat"
  where
  "empty_dirs inc name (File a) = 0"
| "empty_dirs inc name (NoStat d e) = 0"
| "empty_dirs inc name (Dir re me cs) =
     (if \<not> inc \<and> hidden_name name then 0
      else if cs = [] then 1 else empty_dirs_names inc cs)"
| "empty_dirs_names inc [] = 0"
| "empty_dirs_names inc ((name, c) # cs) = empty_dirs inc name c + empty_dirs_names inc cs"

definition total_bytes :: "finfo list \<Rightarrow> nat" where
  "total_bytes fs = sum_list (map f_size fs)"

fun is_marker :: "zip_entry \<Rightarrow> bool" where
  "is_marker (DirMarker n) = True"
| "is_marker (FileEntry n) = False"

fun entry_name :: "zip_entry \<Rightarrow> string" where
  "entry_name (DirMarker n) = n"
| "entry_name (FileEntry n) = n"

definition file_entries :: "zip_entry list \<Rightarrow> zip_entry list" where
  "file_entries es = filter (\<lambda>e. \<not> is_marker e) es"

definition marker_entries :: "zip_entry list \<Rightarrow> zip_entry list" where
  "marker_entries es = filter is_marker es"

definition ends_in_slash :: "string \<Rightarrow> bool" where
  "ends_in_slash n = (n \<noteq> [] \<and> last n = CHR ''/'')"

text \<open>
  The first error a scan of the tree meets: a name whose \<^verbatim>\<open>lstat\<close> fails or a directory
  whose names cannot be read, in walk order, below no pruned directory. Both callbacks of
  \<open>Execute\<close> return the walk's error before they look at the name, so a hidden entry that
  cannot be read stops the walk all the same.
\<close>

fun scan_error :: "bool \<Rightarrow> string \<Rightarrow> node \<Rightarrow> oserr option"
  and scan_error_names :: "bool \<Rightarrow> (string \<times> node) list \<Rightarrow> oserr option"
  where
  "scan_error inc name (File a) = None"
| "scan_error inc name (NoStat d e) = Some e"
| "scan_error inc name (Dir re me cs) =
     (case re of
        Some e \<Rightarrow> Some e
      | None \<Rightarrow> if \<not> inc \<and> hidden_name name then None else scan_error_names inc cs)"
| "scan_error_names inc [] = None"
| "scan_error_names inc ((name, c) # cs) =
     (case scan_error inc name c of
        Some e \<Rightarrow> Some e
      | None \<Rightarrow> scan_error_names inc cs)"

text \<open>
  Following the specification's words for the archive phase: a permission error opening an
  individual file skips that file; any other error of writing a marker, making a header,
  opening or copying a file stops the task. \<open>file_abort\<close> is the cause one eligible file
  stops the task with, \<open>first_abort\<close> the first cause in walk order.
\<close>

definition file_abort :: "string \<Rightarrow> finfo \<Rightarrow> cause option" where
  "file_abort path a =
     (case f_header a of
        Some e \<Rightarrow> Some (OsErr e)
      | None \<Rightarrow>
     (case f_create a of
        Some e \<Rightarrow> Some (OsErr e)
      | None \<Rightarrow>
     (case f_open a of
        Some e \<Rightarrow> if os_IsPermission e then None else Some (OsErr e)
      | None \<Rightarrow>
     (case f_copy a of
        Some e \<Rightarrow> Some (WriteFailed path e)
      | None \<Rightarrow> None))))"

fun first_abort :: "(string \<Rightarrow> string \<Rightarrow> string) \<Rightarrow> bool \<Rightarrow> string \<Rightarrow> string \<Rightarrow> node \<Rightarrow> cause option"
  and first_abort_names ::
    "(string \<Rightarrow> string \<Rightarrow> string) \<Rightarrow> bool \<Rightarrow> string \<Rightarrow> (string \<times> node) list \<Rightarrow> cause option"
  where
  "first_abort join inc name path (File a) =
     (if \<not> inc \<and> hidden_name name then None else file_abort path a)"
| "first_abort join inc name path (NoStat d e) = Some (OsErr e)"
| "first_abort join inc name path (Dir re me cs) =
     (case re of
        Some e \<Rightarrow> Some (OsErr e)
      | None \<Rightarrow>
          if \<not> inc \<and> hidden_name name then None
          else (case me of
                  Some e \<Rightarrow> Some (OsErr e)
                | None \<Rightarrow> first_abort_names join inc path cs))"
| "first_abort_names join inc path [] = None"
| "first_abort_names join inc path ((name, c) # cs) =
     (case first_abort join inc name (join path name) c of
        Some x \<Rightarrow> Some x
      | None \<Rightarrow> first_abort_names join inc path cs)"

definition opened :: "finfo list \<Rightarrow> finfo list" where
  "opened fs = filter (\<lambda>a. f_open a = None) fs"

definition denied :: "finfo \<Rightarrow> bool" where
  "denied a = (case f_open a of Some e \<Rightarrow> os_IsPermission e | None \<Rightarrow> False)"

definition skipped :: "finfo list \<Rightarrow> finfo list" where
  "skipped fs = filter denied fs"

fun is_warning :: "event \<Rightarrow> bool" where
  "is_warning (Warning path) = True"
| "is_warning (Progress a b path) = False"

definition warnings :: "event list \<Rightarrow> event list" where
  "warnings evs = filter is_warning evs"

subsection \<open>What a walk of Execute has done to its state\<close>

definition pruned :: "world \<Rightarrow> CompressTask \<Rightarrow> string list \<Rightarrow> bool" where
  "pruned w ct p =
     (\<not> IncludeHidden (Options ct) \<and> hidden_name (walked_Base w (SourcePath ct) p))"

definition same_cfg :: "CompressTask \<Rightarrow> CompressTask \<Rightarrow> bool" where
  "same_cfg ct ct' =
     (Options ct' = Options ct \<and> SourcePath ct' = SourcePath ct \<and>
      TargetZipPath ct' = TargetZipPath ct)"

definition counted :: "CompressTask \<Rightarrow> finfo list \<Rightarrow> CompressTask \<Rightarrow> bool" where
  "counted ct fs ct' =
     (same_cfg ct ct' \<and>
      TotalFiles ct' = TotalFiles ct + of_nat (length fs) \<and>
      TotalSize ct' = TotalSize ct + of_nat (total_bytes fs))"

text \<open>
  What a walk of the archive phase that meets no aborting cause has done to the state, for
  the eligible files \<open>fs\<close> and the \<open>nd\<close> directories it visited.
\<close>

definition slash_markers :: "zip_entry list \<Rightarrow> bool" where
  "slash_markers es = list_all (\<lambda>e. if is_marker e then ends_in_slash (entry_name e) else True) es"

definition archived :: "zstate \<Rightarrow> finfo list \<Rightarrow> nat \<Rightarrow> zstate \<Rightarrow> bool" where
  "archived zs fs nd zs' =
     (same_cfg (z_task zs) (z_task zs') \<and>
      TotalFiles (z_task zs') = TotalFiles (z_task zs) \<and>
      TotalSize (z_task zs') = TotalSize (z_task zs) \<and>
      length (file_entries (z_entries zs')) = length (file_entries (z_entries zs)) + length fs \<and>
      length (marker_entries (z_entries zs')) = length (marker_entries (z_entries zs)) + nd \<and>
      slash_markers (z_entries zs') = slash_markers (z_entries zs) \<and>
      z_processedFiles zs' = z_processedFiles zs + of_nat (length (opened fs)) \<and>
      z_compressedSize zs' = z_compressedSize zs + of_nat (total_bytes (opened fs)) \<and>
      length (warnings (z_events zs')) = length (warnings (z_events zs)) + length (skipped fs))"

subsection \<open>Shorthands for the exits of Execute\<close>

definition result0 :: "CompressTask \<Rightarrow> CompressResult" where
  "result0 ct = \<lparr>Success = False, r_SourcePath = SourcePath ct,
                 r_TargetZipPath = TargetZipPath ct, r_TotalFiles = 0, r_TotalSize = 0,
                 r_CompressedSize = 0, Error = None\<rparr>"

definition statfs_dir :: "world \<Rightarrow> CompressTask \<Rightarrow> string" where
  "statfs_dir w ct = (let d = path_Dir w (TargetZipPath ct) in if d = [] then ''.'' else d)"

definition dropped_errors :: "world \<Rightarrow> CompressTask \<Rightarrow> oserr list" where
  "dropped_errors w ct =
     (case zip_close w (TargetZipPath ct) of None \<Rightarrow> [] | Some e \<Rightarrow> [e]) @
     (case file_close w (TargetZipPath ct) of None \<Rightarrow> [] | Some e \<Rightarrow> [e])"

definition zstate0 :: "CompressTask \<Rightarrow> zstate" where
  "zstate0 ct = \<lparr>z_task = ct, z_entries = [], z_processedFiles = 0,
                  z_compressedSize = 0, z_events = []\<rparr>"

subsection \<open>The specification's quantities for one task\<close>

definition source_files :: "world \<Rightarrow> CompressTask \<Rightarrow> finfo list" where
  "source_files w ct =
     eligible (IncludeHidden (Options ct)) (path_Base w (SourcePath ct))
       (fs_lookup w (SourcePath ct))"

definition source_dirs :: "world \<Rightarrow> CompressTask \<Rightarrow> nat" where
  "source_dirs w ct =
     eligible_dirs (IncludeHidden (Options ct)) (path_Base w (SourcePath ct))
       (fs_lookup w (SourcePath ct))"

definition scan_failure :: "world \<Rightarrow> CompressTask \<Rightarrow> oserr option" where
  "scan_failure w ct =
     scan_error (IncludeHidden (Options ct)) (path_Base w (SourcePath ct))
       (fs_lookup w (SourcePath ct))"

text \<open>
  The tree the second walk runs on, and the same quantities on it: they are those of the
  source tree when the target does not lie below the source.
\<close>

definition archive_tree :: "world \<Rightarrow> CompressTask \<Rightarrow> node" where
  "archive_tree w ct =
     created w (SourcePath ct) (TargetZipPath ct) (fs_lookup w (SourcePath ct))"

definition archive_files :: "world \<Rightarrow> CompressTask \<Rightarrow> finfo list" where
  "archive_files w ct =
     eligible (IncludeHidden (Options ct)) (path_Base w (SourcePath ct)) (archive_tree w ct)"

definition archive_dirs :: "world \<Rightarrow> CompressTask \<Rightarrow> nat" where
  "archive_dirs w ct =
     eligible_dirs (IncludeHidden (Options ct)) (path_Base w (SourcePath ct))
       (archive_tree w ct)"

definition archive_failure :: "world \<Rightarrow> CompressTask \<Rightarrow> cause option" where
  "archive_failure w ct =
     first_abort (path_Join w) (IncludeHidden (Options ct)) (path_Base w (SourcePath ct))
       (SourcePath ct) (archive_tree w ct)"

definition outside :: "world \<Rightarrow> CompressTask \<Rightarrow> bool" where
  "outside w ct = (path_Below w (SourcePath ct) (TargetZipPath ct) = None)"

text \<open>
  The archive a reader of the target file is sure to find: the entries handed to the zip
  writer when both calls of \<^verbatim>\<open>Close\<close> went through, and none that can be relied on when
  one of them failed.
\<close>

definition produced :: "exec_out \<Rightarrow> zip_entry list option" where
  "produced out = (if x_dropped out = [] then x_archive out else None)"

definition fresh :: "CompressTask \<Rightarrow> bool" where
  "fresh ct = (TotalFiles ct = 0 \<and> TotalSize ct = 0)"

section \<open>Concrete worlds\<close>

text \<open>
  An instance of the world on which the model is evaluated: path functions for clean
  slash-separated paths, a lookup that knows one directory, and a target that can always be
  created and closed, and that is still empty on disk when a walk meets it.
\<close>

definition demo_Base :: "string \<Rightarrow> string" where
  "demo_Base path = rev (takeWhile (\<lambda>c. c \<noteq> CHR ''/'') (rev path))"

definition demo_Dir :: "string \<Rightarrow> string" where
  "demo_Dir path = rev (drop 1 (dropWhile (\<lambda>c. c \<noteq> CHR ''/'') (rev path)))"

definition demo_Join :: "string \<Rightarrow> string \<Rightarrow> string" where
  "demo_Join a b = (if b = ''.'' then a else a @ ''/'' @ b)"

fun split_slash :: "string \<Rightarrow> string list" where
  "split_slash [] = [[]]"
| "split_slash (c # s) =
     (case split_slash s of
        [] \<Rightarrow> [[c]]
      | x # xs \<Rightarrow> if c = CHR ''/'' then [] # x # xs else (c # x) # xs)"

definition demo_Below :: "string \<Rightarrow> string \<Rightarrow> string list option" where
  "demo_Below dir path =
     (if prefix (dir @ ''/'') path then Some (split_slash (drop (Suc (length dir)) path))
      else None)"

definition demo_world ::
  "(string \<Rightarrow> node) \<Rightarrow> (string \<Rightarrow> (int64 \<times> int64) option) \<Rightarrow> world" where
  "demo_world look statfs =
     \<lparr>fs_lookup = look, fs_statfs = statfs, fs_create = (\<lambda>p. None),
      path_Base = demo_Base, path_Dir = demo_Dir, path_Join = demo_Join,
      path_Abs = (\<lambda>p. Inr (if take 1 p = ''/'' then p else ''/home/u/'' @ p)),
      clock = ''20240102_030405'',
      path_Below = demo_Below,
      fs_archive = \<lparr>f_size = 0, f_header = None, f_create = None, f_open = None,
                     f_copy = None\<rparr>,
      zip_close = (\<lambda>p. None), file_close = (\<lambda>p. None)\<rparr>"

definition reg :: "nat \<Rightarrow> node" where
  "reg n = File \<lparr>f_size = n, f_header = None, f_create = None, f_open = None, f_copy = None\<rparr>"

definition at_path :: "string \<Rightarrow> node \<Rightarrow> string \<Rightarrow> node" where
  "at_path path nd p = (if p = path then nd else NoStat False ENOENT)"

subsection \<open>Directories and tasks\<close>

definition hidden_only_tree :: node where
  "hidden_only_tree =
     Dir None None [(''.cache'', Dir None None [(''x'', reg 7)]), (''.env'', reg 5)]"

definition w7 :: world where
  "w7 = demo_world (at_path ''/data/d'' hidden_only_tree) (\<lambda>p. Some (1000, 4096))"

definition task7 :: CompressTask where
  "task7 = NewCompressTask ''/data/d'' ''/data/d.zip'' None"

definition scenario_tree :: node where
  "scenario_tree =
     Dir None None [(''.secret'', reg 5), (''a.txt'', reg 10), (''b.txt'', reg 20),
                    (''c.txt'', reg 30)]"

definition w6_small :: world where
  "w6_small = demo_world (at_path ''/data/d'' scenario_tree) (\<lambda>p. Some (1, 16))"

definition w6_unknown :: world where
  "w6_unknown = demo_world (at_path ''/data/d'' scenario_tree) (\<lambda>p. None)"

definition w2 :: world where
  "w2 = demo_world (at_path ''/data/d'' scenario_tree) (\<lambda>p. Some (1000, 4096))"

text \<open>
  The same directory compressed into an archive inside it, and compressed on a disk that
  fills up when the zip writer flushes (error 28, no space left on the device).
\<close>

definition task_inside :: CompressTask where
  "task_inside = NewCompressTask ''/data/d'' ''/data/d/out.zip'' None"

definition w5_full :: world where
  "w5_full = w2\<lparr>zip_close := (\<lambda>p. Some (EIO 28))\<rparr>"

definition locked :: "nat \<Rightarrow> oserr \<Rightarrow> node" where
  "locked n e =
     File \<lparr>f_size = n, f_header = None, f_create = None, f_open = Some e, f_copy = None\<rparr>"

definition unreadable :: "nat \<Rightarrow> oserr \<Rightarrow> node" where
  "unreadable n e =
     File \<lparr>f_size = n, f_header = None, f_create = None, f_open = None, f_copy = Some e\<rparr>"

definition w5_denied :: world where
  "w5_denied = demo_world
     (at_path ''/data/d'' (Dir None None [(''a.txt'', reg 10), (''b.txt'', locked 20 EACCES),
                                         (''c.txt'', reg 30)]))
     (\<lambda>p. Some (1000, 4096))"

definition w5_eperm :: world where
  "w5_eperm = demo_world
     (at_path ''/data/d'' (Dir None None [(''a.txt'', reg 10), (''b.txt'', locked 20 EPERM),
                                         (''c.txt'', reg 30)]))
     (\<lambda>p. Some (1000, 4096))"

definition w5_open :: world where
  "w5_open = demo_world
     (at_path ''/data/d'' (Dir None None [(''a.txt'', reg 10), (''b.txt'', locked 20 (EIO 5)),
                                         (''c.txt'', reg 30)]))
     (\<lambda>p. Some (1000, 4096))"

definition w5_copy :: world where
  "w5_copy = demo_world
     (at_path ''/data/d'' (Dir None None [(''a.txt'', reg 10), (''b.txt'', unreadable 20 (EIO 5)),
                                         (''c.txt'', reg 30)]))
     (\<lambda>p. Some (1000, 4096))"

section \<open>CompressQueue\<close>

datatype QueueStatus =
  QueueStatusIdle | QueueStatusRunning | QueueStatusPaused | QueueStatusStopped

record CompressQueueItem =
  Task :: CompressTask
  Result :: "CompressResult option"
  Status :: string
  RetryCount :: int

text \<open>
  The four callbacks of the queue are nullable function values; the model keeps whether each
  is set and records every call in the list of events of a run.
\<close>

record CompressQueue =
  items :: "CompressQueueItem list"
  currentIndex :: "32 word"
  status :: QueueStatus
  maxConcurrent :: "32 word"
  OnTaskStart :: bool
  OnTaskProgress :: bool
  OnTaskComplete :: bool
  OnQueueComplete :: bool

definition NewCompressQueue :: "int \<Rightarrow> CompressQueue" where
  "NewCompressQueue maxConcurrent0 =
     (let maxConcurrent1 = (if maxConcurrent0 < 1 then 1 else maxConcurrent0)
      in \<lparr>items = [], currentIndex = 0, status = QueueStatusIdle,
           maxConcurrent = word_of_int maxConcurrent1,
           OnTaskStart = False, OnTaskProgress = False, OnTaskComplete = False,
           OnQueueComplete = False\<rparr>)"

subsection \<open>AddTask\<close>

definition GenerateUniqueZipName :: "world \<Rightarrow> string \<Rightarrow> string" where
  "GenerateUniqueZipName w sourcePath =
     (let absPath = (case path_Abs w sourcePath of Inl err \<Rightarrow> sourcePath | Inr a \<Rightarrow> a);
          baseName = path_Base w absPath;
          timestamp = clock w
      in baseName @ ''_'' @ timestamp @ ''.zip'')"

definition GenerateSimpleZipName :: "world \<Rightarrow> string \<Rightarrow> string" where
  "GenerateSimpleZipName w sourcePath =
     (let absPath = (case path_Abs w sourcePath of Inl err \<Rightarrow> sourcePath | Inr a \<Rightarrow> a)
      in path_Base w absPath @ ''.zip'')"

datatype qerror = ErrAbsSource oserr | ErrAbsTarget oserr

definition AddTask ::
  "world \<Rightarrow> CompressQueue \<Rightarrow> string \<Rightarrow> string \<Rightarrow> CompressOptions option
     \<Rightarrow> qerror + CompressQueue" where
  "AddTask w cq sourcePath targetZipPath opts =
     (case path_Abs w sourcePath of
        Inl err \<Rightarrow> Inl (ErrAbsSource err)
      | Inr absSource \<Rightarrow>
          (let targetZipPath1 =
                 (if targetZipPath = []
                  then (if length (items cq) = 1 then GenerateSimpleZipName w sourcePath
                        else GenerateUniqueZipName w sourcePath)
                  else targetZipPath)
           in case path_Abs w targetZipPath1 of
                Inl err \<Rightarrow> Inl (ErrAbsTarget err)
              | Inr absTarget \<Rightarrow>
                  (let task = NewCompressTask absSource absTarget opts;
                       item = \<lparr>Task = task, Result = None, Status = ''pending'',
                               RetryCount = 0\<rparr>
                   in Inr (cq\<lparr>items := items cq @ [item]\<rparr>))))"

definition Count :: "CompressQueue \<Rightarrow> nat" where
  "Count cq = length (items cq)"

definition GetResults :: "CompressQueue \<Rightarrow> CompressQueueItem list" where
  "GetResults cq = items cq"

subsection \<open>Stop, Pause, Resume and the status word\<close>

text \<open>
  \<^verbatim>\<open>Stop\<close>, \<^verbatim>\<open>Pause\<close> and \<^verbatim>\<open>Resume\<close> act on the atomic status word alone and may be
  called from any thread, or from a callback, while \<^verbatim>\<open>Execute\<close> runs. A schedule says
  which of these calls land between two consecutive loads of the status word by the
  thread of \<^verbatim>\<open>Execute\<close>: its first element before the first load, and so on; once the
  schedule is used up no further call arrives.
\<close>

definition Stop :: "QueueStatus \<Rightarrow> QueueStatus" where
  "Stop s = QueueStatusStopped"

definition Pause :: "QueueStatus \<Rightarrow> QueueStatus" where
  "Pause s = QueueStatusPaused"

definition Resume :: "QueueStatus \<Rightarrow> QueueStatus" where
  "Resume s = (if s = QueueStatusPaused then QueueStatusRunning else s)"

datatype ctl = CallStop | CallPause | CallResume

fun ctl_apply :: "QueueStatus \<Rightarrow> ctl \<Rightarrow> QueueStatus" where
  "ctl_apply s CallStop = Stop s"
| "ctl_apply s CallPause = Pause s"
| "ctl_apply s CallResume = Resume s"

type_synonym schedule = "ctl list list"

fun GetStatus :: "QueueStatus \<Rightarrow> schedule \<Rightarrow> QueueStatus \<times> schedule" where
  "GetStatus s [] = (s, [])"
| "GetStatus s (calls # sch) = (foldl ctl_apply s calls, sch)"

text \<open>
  The inner loop of \<^verbatim>\<open>Execute\<close>: while the status is paused, sleep, and return from
  \<^verbatim>\<open>Execute\<close> when the status is then stopped. The result is \<open>Some (True, _)\<close> when the
  loop is left and the item runs, \<open>Some (False, _)\<close> on the \<^verbatim>\<open>return\<close>, and \<open>None\<close> when
  the loop never ends: the status is paused and no call is left to change it.
\<close>

fun wait_paused :: "QueueStatus \<Rightarrow> schedule \<Rightarrow> (bool \<times> QueueStatus \<times> schedule) option" where
  "wait_paused s [] = (if s = QueueStatusPaused then None else Some (True, s, []))"
| "wait_paused s [calls] =
     (case GetStatus s [calls] of
        (s1, sch1) \<Rightarrow> if s1 = QueueStatusPaused then None else Some (True, s1, sch1))"
| "wait_paused s (calls # calls2 # sch) =
     (case GetStatus s (calls # calls2 # sch) of
        (s1, sch1) \<Rightarrow>
          if s1 = QueueStatusPaused
          then (case GetStatus s1 sch1 of
                  (s2, sch2) \<Rightarrow>
                    if s2 = QueueStatusStopped then Some (False, s2, sch2)
                    else wait_paused s2 sch)
          else Some (True, s1, sch1))"

subsection \<open>Execute\<close>

datatype qevent =
    EvTaskStart nat
  | EvTaskRun nat
  | EvTaskProgress nat int64 int64 string
  | EvTaskComplete nat
  | EvQueueComplete

text \<open>
  How a run of \<^verbatim>\<open>Execute\<close> ended: the compare-and-swap failed; the \<^verbatim>\<open>range\<close> loop ran
  out of items; the \<^verbatim>\<open>break\<close> before the item of the given index; the \<^verbatim>\<open>return\<close> from
  the pause loop before the item of the given index.
\<close>

datatype run_exit = Rejected | Finished | Broke nat | Returned nat

fun forward_progress :: "nat \<Rightarrow> event list \<Rightarrow> qevent list" where
  "forward_progress i [] = []"
| "forward_progress i (Progress processed tot currentFile # evs) =
     EvTaskProgress i processed tot currentFile # forward_progress i evs"
| "forward_progress i (Warning path # evs) = forward_progress i evs"

text \<open>
  The loop over the items. \<open>exec i\<close> is \<^verbatim>\<open>item.Task.Execute()\<close> for the item of index
  \<open>i\<close>, with \<^verbatim>\<open>OnProgress\<close> set: \<open>Execute w True\<close> in the world \<open>w\<close> of that moment.
\<close>

fun run_items ::
  "(nat \<Rightarrow> CompressTask \<Rightarrow> exec_out) \<Rightarrow> CompressQueue \<Rightarrow> nat \<Rightarrow> CompressQueueItem list
     \<Rightarrow> QueueStatus \<Rightarrow> schedule
     \<Rightarrow> (run_exit \<times> CompressQueueItem list \<times> QueueStatus \<times> qevent list) option" where
  "run_items exec cq i [] s sch = Some (Finished, [], s, [])"
| "run_items exec cq i (item # rest) s sch =
     (case GetStatus s sch of
        (s1, sch1) \<Rightarrow>
          if s1 = QueueStatusStopped then Some (Broke i, item # rest, s1, [])
          else
            (case wait_paused s1 sch1 of
               None \<Rightarrow> None
             | Some (go, s2, sch2) \<Rightarrow>
                 if \<not> go then Some (Returned i, item # rest, s2, [])
                 else
                   (let item1 = item\<lparr>Status := ''running''\<rparr>;
                        ev1 = (if OnTaskStart cq then [EvTaskStart i] else []);
                        out = exec i (Task item1);
                        ev2 = EvTaskRun i #
                              (if OnTaskProgress cq then forward_progress i (x_events out)
                               else []);
                        item2 = item1\<lparr>Task := x_task out, Result := Some (x_result out)\<rparr>;
                        item3 = item2\<lparr>Status := (if Success (x_result out) then ''completed''
                                                   else ''failed'')\<rparr>;
                        ev3 = (if OnTaskComplete cq then [EvTaskComplete i] else [])
                    in case run_items exec cq (Suc i) rest s2 sch2 of
                         None \<Rightarrow> None
                       | Some (ex, rest1, s3, evs) \<Rightarrow>
                           Some (ex, item3 # rest1, s3, ev1 @ ev2 @ ev3 @ evs))))"

text \<open>
  \<^verbatim>\<open>Execute\<close>: the compare-and-swap from idle to running, the loop, the call of
  \<^verbatim>\<open>OnQueueComplete\<close> behind the loop, and the deferred store of idle on every return
  behind the compare-and-swap. \<open>None\<close> is a run that never returns.
\<close>

definition CompressQueue_Execute ::
  "(nat \<Rightarrow> CompressTask \<Rightarrow> exec_out) \<Rightarrow> CompressQueue \<Rightarrow> schedule
     \<Rightarrow> (CompressQueue \<times> run_exit \<times> qevent list) option" where
  "CompressQueue_Execute exec cq sch =
     (if status cq \<noteq> QueueStatusIdle then Some (cq, Rejected, [])
      else
        (case run_items exec cq 0 (items cq) QueueStatusRunning sch of
           None \<Rightarrow> None
         | Some (ex, items1, s, evs) \<Rightarrow>
             (case ex of
                Returned i \<Rightarrow>
                  Some (cq\<lparr>items := items1, status := QueueStatusIdle\<rparr>, ex, evs)
              | _ \<Rightarrow>
                  Some (cq\<lparr>items := items1, status := QueueStatusIdle\<rparr>, ex,
                        evs @ (if OnQueueComplete cq then [EvQueueComplete] else [])))))"

subsection \<open>What a run leaves behind\<close>

fun runs :: "qevent list \<Rightarrow> nat list" where
  "runs [] = []"
| "runs (EvTaskRun i # evs) = i # runs evs"
| "runs (ev # evs) = runs evs"

definition terminal :: "CompressQueueItem \<Rightarrow> bool" where
  "terminal item = (Status item = ''completed'' \<or> Status item = ''failed'')"

definition pending :: "CompressQueueItem \<Rightarrow> bool" where
  "pending item = (Status item = ''pending'')"

fun stopped_at :: "run_exit \<Rightarrow> nat option" where
  "stopped_at (Broke i) = Some i"
| "stopped_at (Returned i) = Some i"
| "stopped_at Finished = None"
| "stopped_at Rejected = None"

definition no_pause :: "schedule \<Rightarrow> bool" where
  "no_pause sch = list_all (\<lambda>calls. CallPause \<notin> set calls) sch"

subsection \<open>Concrete queues and schedules\<close>

text \<open>
  A queue of five pending items on the scenario directory. The item of index 1 has nothing
  to compress and fails; the others succeed.
\<close>

definition pending_item :: "string \<Rightarrow> CompressQueueItem" where
  "pending_item target =
     \<lparr>Task = NewCompressTask ''/data/d'' target None, Result = None, Status = ''pending'',
      RetryCount = 0\<rparr>"

definition queue5 :: CompressQueue where
  "queue5 = (NewCompressQueue 1)\<lparr>items :=
     [pending_item ''/out/1.zip'', pending_item ''/out/2.zip'', pending_item ''/out/3.zip'',
      pending_item ''/out/4.zip'', pending_item ''/out/5.zip''],
     OnTaskStart := True, OnTaskComplete := True, OnQueueComplete := True\<rparr>"

definition exec5 :: "nat \<Rightarrow> CompressTask \<Rightarrow> exec_out" where
  "exec5 i = Execute (if i = 1 then w7 else w2) True"

definition stop_after_two :: schedule where
  "stop_after_two = [[], [], [], [], [CallStop]]"

definition stop_while_paused :: schedule where
  "stop_while_paused = [[CallPause], [], [CallStop]]"

definition queue0 :: CompressQueue where
  "queue0 = NewCompressQueue 1"

definition queue1 :: CompressQueue where
  "queue1 = queue0\<lparr>items :=
     [\<lparr>Task = NewCompressTask ''/data/d'' ''/home/u/d_20240102_030405.zip'' None, Result = None,
       Status = ''pending'', RetryCount = 0\<rparr>]\<rparr>"

definition queue2 :: CompressQueue where
  "queue2 = queue1\<lparr>items := items queue1 @
     [\<lparr>Task = NewCompressTask ''/data/d'' ''/home/u/d.zip'' None, Result = None,
       Status = ''pending'', RetryCount = 0\<rparr>]\<rparr>"

definition queue3 :: CompressQueue where
  "queue3 = queue2\<lparr>items := items queue2 @
     [\<lparr>Task = NewCompressTask ''/data/d'' ''/home/u/d_20240102_030405.zip'' None, Result = None,
       Status = ''pending'', RetryCount = 0\<rparr>]\<rparr>"

section \<open>CompressUploadTaskUnit\<close>

subsection \<open>CompressStatistic\<close>

record CompressStatistic =
  totalSize :: int64
  compressedSize :: int64
  fileCount :: int64

definition AddTotalSize :: "int64 \<Rightarrow> CompressStatistic \<Rightarrow> CompressStatistic" where
  "AddTotalSize n cs = cs\<lparr>totalSize := totalSize cs + n\<rparr>"

definition AddCompressedSize :: "int64 \<Rightarrow> CompressStatistic \<Rightarrow> CompressStatistic" where
  "AddCompressedSize n cs = cs\<lparr>compressedSize := compressedSize cs + n\<rparr>"

definition AddFileCount :: "int64 \<Rightarrow> CompressStatistic \<Rightarrow> CompressStatistic" where
  "AddFileCount n cs = cs\<lparr>fileCount := fileCount cs + n\<rparr>"

definition Reset :: "CompressStatistic \<Rightarrow> CompressStatistic" where
  "Reset cs = cs\<lparr>totalSize := 0, compressedSize := 0, fileCount := 0\<rparr>"

subsection \<open>The result of a unit and the upload engine\<close>

text \<open>
  Modelled from the spec: \<^verbatim>\<open>taskframework.TaskUnitRunResult\<close>, \<^verbatim>\<open>pcsupload.UploadTaskUnit\<close>
  and \<^verbatim>\<open>pcsupload.NewUploadingDatabase\<close> are not among the sources. The result record has the
  fields that \<^verbatim>\<open>Run\<close> reads and writes; the upload engine receives the local path, the
  remote path, the concurrency, the policy token and the rapid-upload toggle and returns
  its verdict, or no result at all. Messages are kept as what they are made from.
\<close>

datatype uerror = CompressError cerror | DatabaseError oserr | UploadError string

datatype message = Plain string | CompressFailedMsg "cerror option" | OpenDatabaseFailedMsg oserr

record TaskUnitRunResult =
  Succeed :: bool
  NeedRetry :: bool
  Err :: "uerror option"
  ResultMessage :: message
  Extra :: "string option"

record upload_request =
  up_LocalPath :: string
  up_SavePath :: string
  up_Parallel :: int
  up_NoRapidUpload :: bool
  up_Policy :: string

record upload_env =
  NewUploadingDatabase :: "oserr option"
  UploadTaskUnit_Run :: "upload_request \<Rightarrow> TaskUnitRunResult option"
  os_Remove :: "string \<Rightarrow> oserr option"

record CompressUploadTaskUnit =
  u_SourcePath :: string
  u_TargetZipPath :: string
  u_SavePath :: string
  u_Parallel :: int
  u_MaxRetry :: int
  u_Policy :: string
  u_NoRapidUpload :: bool
  u_DeleteAfterUpload :: bool
  u_CompressOpts :: "CompressOptions option"
  u_compressResult :: "CompressResult option"

text \<open>
  What \<^verbatim>\<open>Run\<close> does besides returning: the compression, the three additions to the shared
  statistic, the call of \<^verbatim>\<open>upload\<close>, the removal of the archive and the warning when that
  fails.
\<close>

datatype run_event =
    DidCompress string string
  | DidAddStatistic int64 int64 int64
  | DidUpload upload_request
  | DidRemove string
  | DidWarnRemove oserr

definition upload :: "upload_env \<Rightarrow> CompressUploadTaskUnit \<Rightarrow> TaskUnitRunResult option" where
  "upload env cutu =
     (case NewUploadingDatabase env of
        Some err \<Rightarrow>
          Some \<lparr>Succeed = False, NeedRetry = False, Err = Some (DatabaseError err),
                ResultMessage = OpenDatabaseFailedMsg err, Extra = None\<rparr>
      | None \<Rightarrow>
          UploadTaskUnit_Run env
            \<lparr>up_LocalPath = u_TargetZipPath cutu, up_SavePath = u_SavePath cutu,
             up_Parallel = u_Parallel cutu, up_NoRapidUpload = u_NoRapidUpload cutu,
             up_Policy = u_Policy cutu\<rparr>)"

text \<open>
  \<^verbatim>\<open>Run\<close>. The shared statistic is a pointer in the unit: the model passes what it
  points to, \<open>None\<close> for a nil pointer, and returns it updated.
\<close>

definition Run ::
  "world \<Rightarrow> upload_env \<Rightarrow> CompressUploadTaskUnit \<Rightarrow> CompressStatistic option
     \<Rightarrow> TaskUnitRunResult \<times> CompressUploadTaskUnit \<times> CompressStatistic option \<times> run_event list"
  where
  "Run w env cutu statistic =
     (let result = \<lparr>Succeed = False, NeedRetry = False, Err = None, ResultMessage = Plain [],
                     Extra = None\<rparr>;
          task = NewCompressTask (u_SourcePath cutu) (u_TargetZipPath cutu) (u_CompressOpts cutu);
          compressResult = x_result (Execute w True task);
          cutu1 = cutu\<lparr>u_compressResult := Some compressResult\<rparr>;
          ev1 = [DidCompress (u_SourcePath cutu) (u_TargetZipPath cutu)]
      in if \<not> Success compressResult
         then (result\<lparr>ResultMessage := CompressFailedMsg (Error compressResult),
                      Err := map_option CompressError (Error compressResult),
                      NeedRetry := False\<rparr>,
               cutu1, statistic, ev1)
         else
           (let statistic1 =
                  (case statistic of
                     None \<Rightarrow> None
                   | Some cs \<Rightarrow>
                       Some (AddFileCount (r_TotalFiles compressResult)
                              (AddCompressedSize (r_CompressedSize compressResult)
                                (AddTotalSize (r_TotalSize compressResult) cs))));
                ev2 = (case statistic of
                         None \<Rightarrow> []
                       | Some cs \<Rightarrow>
                           [DidAddStatistic (r_TotalSize compressResult)
                              (r_CompressedSize compressResult) (r_TotalFiles compressResult)]);
                uploadResult = upload env cutu1;
                ev3 = [DidUpload \<lparr>up_LocalPath = u_TargetZipPath cutu1,
                         up_SavePath = u_SavePath cutu1, up_Parallel = u_Parallel cutu1,
                         up_NoRapidUpload = u_NoRapidUpload cutu1, up_Policy = u_Policy cutu1\<rparr>];
                result1 = (case uploadResult of
                             None \<Rightarrow> result
                           | Some u \<Rightarrow>
                               result\<lparr>Succeed := Succeed u, NeedRetry := NeedRetry u,
                                      Err := Err u, ResultMessage := ResultMessage u,
                                      Extra := Extra u\<rparr>);
                ev4 = (if Succeed result1 \<and> u_DeleteAfterUpload cutu1
                       then DidRemove (u_TargetZipPath cutu1) #
                            (case os_Remove env (u_TargetZipPath cutu1) of
                               None \<Rightarrow> []
                             | Some err \<Rightarrow> [DidWarnRemove err])
                       else [])
            in (result1, cutu1, statistic1, ev1 @ ev2 @ ev3 @ ev4)))"

subsection \<open>Shorthands for Run and a concrete unit\<close>

definition compression_of :: "world \<Rightarrow> CompressUploadTaskUnit \<Rightarrow> CompressResult" where
  "compression_of w cutu =
     x_result (Execute w True
       (NewCompressTask (u_SourcePath cutu) (u_TargetZipPath cutu) (u_CompressOpts cutu)))"

definition request_of :: "CompressUploadTaskUnit \<Rightarrow> upload_request" where
  "request_of cutu =
     \<lparr>up_LocalPath = u_TargetZipPath cutu, up_SavePath = u_SavePath cutu,
      up_Parallel = u_Parallel cutu, up_NoRapidUpload = u_NoRapidUpload cutu,
      up_Policy = u_Policy cutu\<rparr>"

fun is_cleanup :: "run_event \<Rightarrow> bool" where
  "is_cleanup (DidRemove path) = True"
| "is_cleanup (DidWarnRemove err) = True"
| "is_cleanup ev = False"

definition unit8 :: CompressUploadTaskUnit where
  "unit8 = \<lparr>u_SourcePath = ''/data/d'', u_TargetZipPath = ''/data/d.zip'',
             u_SavePath = ''/remote/d.zip'', u_Parallel = 4, u_MaxRetry = 3,
             u_Policy = ''skip'', u_NoRapidUpload = False, u_DeleteAfterUpload = True,
             u_CompressOpts = None, u_compressResult = None\<rparr>"

definition env8 :: upload_env where
  "env8 = \<lparr>NewUploadingDatabase = None,
            UploadTaskUnit_Run = (\<lambda>req. Some \<lparr>Succeed = True, NeedRetry = False, Err = None,
                                              ResultMessage = Plain ''ok'', Extra = None\<rparr>),
            os_Remove = (\<lambda>path. None)\<rparr>"

definition statistic0 :: CompressStatistic where
  "statistic0 = \<lparr>totalSize = 0, compressedSize = 0, fileCount = 0\<rparr>"

section \<open>GetSubDirectories\<close>

definition strings_Count :: "string \<Rightarrow> char \<Rightarrow> nat" where
  "strings_Count s c = length (filter (\<lambda>x. x = c) s)"

text \<open>
  The callback of the walk of \<^verbatim>\<open>GetSubDirectories\<close>; its state is the slice \<^verbatim>\<open>dirs\<close>.
\<close>

definition subdirs_fn :: "world \<Rightarrow> string \<Rightarrow> int \<Rightarrow> (string list, oserr) WalkFunc" where
  "subdirs_fn w parentPath depth p info err dirs =
     (case err of
        Some e \<Rightarrow> (WErr e, dirs)
      | None \<Rightarrow>
          if \<not> IsDir info then (WNil, dirs)
          else
            (let relPath = walked_Rel p in
             if relPath = ''.'' then (WNil, dirs)
             else
               (let currentDepth = int (strings_Count relPath CHR ''/'') + 1 in
                if depth > 0 \<and> currentDepth > depth then (SkipDir, dirs)
                else if depth < 0 \<or> currentDepth \<le> depth
                then (WNil, dirs @ [walked_path w parentPath p])
                else (WNil, dirs))))"

text \<open>
  \<^verbatim>\<open>os.ReadDir\<close>: the entries of a directory in the order of their names, or the error of
  reading it (for what is no directory, the error number of \<^verbatim>\<open>ENOTDIR\<close>).
\<close>

fun os_ReadDir :: "node \<Rightarrow> oserr + (string \<times> node) list" where
  "os_ReadDir (Dir re me cs) = (case re of Some e \<Rightarrow> Inl e | None \<Rightarrow> Inr cs)"
| "os_ReadDir (File a) = Inl (EIO 20)"
| "os_ReadDir (NoStat d e) = Inl e"

definition GetSubDirectories :: "world \<Rightarrow> string \<Rightarrow> int \<Rightarrow> string list \<times> cerror option" where
  "GetSubDirectories w parentPath depth =
     (let parentInfo = fs_lookup w parentPath in
      case parentInfo of
        NoStat d e \<Rightarrow> ([], Some (ErrOther e))
      | _ \<Rightarrow>
      if \<not> IsDir parentInfo then ([], Some ErrSourceNotDirectory)
      else if depth = 0 then ([parentPath], None)
      else if depth = 1
      then (case os_ReadDir parentInfo of
              Inl e \<Rightarrow> ([], Some (ErrOther e))
            | Inr entries \<Rightarrow>
                (map (\<lambda>(name, c). path_Join w parentPath name)
                   (filter (\<lambda>(name, c). IsDir c) entries), None))
      else
        (case filepath_Walk (subdirs_fn w parentPath depth) parentInfo [] of
           (WErr e, dirs) \<Rightarrow> (dirs, Some (ErrOther e))
         | (_, dirs) \<Rightarrow> (dirs, None)))"

subsection \<open>The directories the specification names\<close>

text \<open>
  Following the specification's words: the directories up to so many levels below a
  parent, in the order of the walk, deeper subtrees pruned; \<open>None\<close> is no limit. A tree is
  plain when every directory in it can be read, every name can be examined, and no name
  is \<^verbatim>\<open>.\<close> or contains the path separator.
\<close>

fun dirs_within :: "(string \<Rightarrow> string \<Rightarrow> string) \<Rightarrow> nat option \<Rightarrow> string \<Rightarrow> node \<Rightarrow> string list"
  and dirs_within_names ::
    "(string \<Rightarrow> string \<Rightarrow> string) \<Rightarrow> nat option \<Rightarrow> string \<Rightarrow> (string \<times> node) list \<Rightarrow> string list"
  where
  "dirs_within join lim path (File a) = []"
| "dirs_within join lim path (NoStat d e) = []"
| "dirs_within join lim path (Dir re me cs) =
     (if lim = Some 0 then []
      else path # dirs_within_names join (map_option (\<lambda>n. n - 1) lim) path cs)"
| "dirs_within_names join lim path [] = []"
| "dirs_within_names join lim path ((name, c) # cs) =
     dirs_within join lim (join path name) c @ dirs_within_names join lim path cs"

definition plain_name :: "string \<Rightarrow> bool" where
  "plain_name n = (n \<noteq> ''.'' \<and> CHR ''/'' \<notin> set n)"

fun plain :: "node \<Rightarrow> bool" and plain_names :: "(string \<times> node) list \<Rightarrow> bool" where
  "plain (File a) = True"
| "plain (NoStat d e) = False"
| "plain (Dir re me cs) = (re = None \<and> plain_names cs)"
| "plain_names [] = True"
| "plain_names ((name, c) # cs) = (plain_name name \<and> plain c \<and> plain_names cs)"

definition child_dirs :: "(string \<Rightarrow> string \<Rightarrow> string) \<Rightarrow> string \<Rightarrow> (string \<times> node) list \<Rightarrow> string list"
  where
  "child_dirs join path cs = map (\<lambda>(name, c). join path name) (filter (\<lambda>(name, c). IsDir c) cs)"

subsection \<open>The depth limit along the walk and a concrete tree\<close>

definition lim_at :: "int \<Rightarrow> nat \<Rightarrow> nat option" where
  "lim_at depth l = (if depth < 0 then None else Some (nat depth + 1 - l))"

definition tree9 :: node where
  "tree9 = Dir None None
     [(''a'', Dir None None [(''f.txt'', reg 1),
                            (''x'', Dir None None [(''deep'', Dir None None [])])]),
      (''b'', Dir None None []),
      (''c.txt'', reg 2)]"

definition w9 :: world where
  "w9 = demo_world (at_path ''/data/p'' tree9) (\<lambda>p. None)"

chapter \<open>The proofs\<close>

section \<open>The two walks of Execute\<close>

lemma same_cfg_refl: "same_cfg ct ct" by (simp add: same_cfg_def)

lemma pruned_cfg: "same_cfg ct ct' \<Longrightarrow> pruned w ct' p = pruned w ct p"
  by (simp add: same_cfg_def pruned_def)

lemma walked_Base_snoc: "walked_Base w root (p @ [name]) = name"
  by (simp add: walked_Base_def)

lemma countFiles_fn_err: "countFiles_fn w p nd (Some e) ct = (WErr e, ct)"
  by (simp add: countFiles_fn_def)

lemma countFiles_fn_pruned:
  "pruned w ct p \<Longrightarrow> countFiles_fn w p nd None ct = (if IsDir nd then SkipDir else WNil, ct)"
  by (simp add: countFiles_fn_def pruned_def)

lemma countFiles_fn_dir:
  "\<not> pruned w ct p \<Longrightarrow> IsDir nd \<Longrightarrow> countFiles_fn w p nd None ct = (WNil, ct)"
  by (simp add: countFiles_fn_def pruned_def)

lemma countFiles_fn_file:
  "\<not> pruned w ct p \<Longrightarrow> \<not> IsDir nd \<Longrightarrow> countFiles_fn w p nd None ct =
     (WNil, ct\<lparr>TotalFiles := TotalFiles ct + 1, TotalSize := TotalSize ct + Size nd\<rparr>)"
  by (auto simp add: countFiles_fn_def pruned_def)

lemma counted_nil: "counted ct [] ct"
  by (simp add: counted_def same_cfg_def total_bytes_def)

lemma counted_trans: "counted ct fs ct1 \<Longrightarrow> counted ct1 gs ct2 \<Longrightarrow> counted ct (fs @ gs) ct2"
  by (simp add: counted_def same_cfg_def total_bytes_def)

lemma count_walk_File:
  "walk (countFiles_fn w) p (File a) ct = (r, ct') \<Longrightarrow>
     r = WNil \<and> counted ct (eligible (IncludeHidden (Options ct)) (walked_Base w (SourcePath ct) p) (File a)) ct'"
  by (cases "pruned w ct p")
     (auto simp: countFiles_fn_pruned countFiles_fn_file counted_def same_cfg_def total_bytes_def pruned_def)

lemma count_names_step:
  assumes "scan_error inc name c = None" "counted s (eligible inc name c) s1"
    and "case scan_error_names inc cs of Some e \<Rightarrow> r = WErr e
         | None \<Rightarrow> r = WNil \<and> counted s1 (eligible_names inc cs) ct'"
  shows "case scan_error_names inc ((name, c) # cs) of Some e \<Rightarrow> r = WErr e
         | None \<Rightarrow> r = WNil \<and> counted s (eligible_names inc ((name, c) # cs)) ct'"
  using assms counted_trans by (auto split: option.splits)

lemma count_walk:
  "walk (countFiles_fn w) p nd ct = (r, ct') \<Longrightarrow>
     (case scan_error (IncludeHidden (Options ct)) (walked_Base w (SourcePath ct) p) nd of
        Some e \<Rightarrow> r = WErr e
      | None \<Rightarrow> (\<forall>e. r \<noteq> WErr e) \<and> (r = SkipDir \<longrightarrow> IsDir nd) \<and>
          counted ct (eligible (IncludeHidden (Options ct)) (walked_Base w (SourcePath ct) p) nd) ct')"
  "walk_names (countFiles_fn w) p cs ct = (r, ct') \<Longrightarrow>
     (case scan_error_names (IncludeHidden (Options ct)) cs of
        Some e \<Rightarrow> r = WErr e
      | None \<Rightarrow> r = WNil \<and> counted ct (eligible_names (IncludeHidden (Options ct)) cs) ct')"
proof (induction "countFiles_fn w" p nd ct and "countFiles_fn w" p cs ct
       arbitrary: r ct' and r ct' rule: walk_walk_names.induct)
  case (1 p a s)
  then show ?case using count_walk_File[of w p a s r ct'] by simp
next
  case (2 p d e s)
  then show ?case by (auto simp add: countFiles_fn_err)
next
  case (3 p re me cs s)
  note prems = "3.prems"
  show ?case
  proof (cases re)
    case (Some e)
    with prems show ?thesis by (auto simp add: countFiles_fn_err)
  next
    case None
    show ?thesis
    proof (cases "pruned w s p")
      case True
      with None prems show ?thesis
        by (auto simp add: countFiles_fn_pruned counted_nil pruned_def)
    next
      case False
      with None prems have w: "walk_names (countFiles_fn w) p cs s = (r, ct')"
        by (simp add: countFiles_fn_dir)
      have "case scan_error_names (IncludeHidden (Options s)) cs of
              Some e \<Rightarrow> r = WErr e
            | None \<Rightarrow> r = WNil \<and> counted s (eligible_names (IncludeHidden (Options s)) cs) ct'"
        using "3.hyps"[of WNil s r ct'] None False w by (simp add: countFiles_fn_dir)
      with False None show ?thesis by (auto simp add: pruned_def split: option.splits)
    qed
  qed
next
  case (4 p s)
  then show ?case by (simp add: counted_nil)
next
  case (5 p name c cs s)
  note prems = "5.prems"
  show ?case
  proof (cases c)
    case (NoStat d e)
    with prems show ?thesis
      by (auto simp add: countFiles_fn_err)
  next
    case (File a)
    obtain err s1 where w1: "walk (countFiles_fn w) (p @ [name]) c s = (err, s1)"
      by (cases "walk (countFiles_fn w) (p @ [name]) c s")
    from w1 have w1': "walk (countFiles_fn w) (p @ [name]) (File a) s = (err, s1)"
      unfolding File .
    from count_walk_File[OF w1'] have e: "err = WNil"
      and c1: "counted s (eligible (IncludeHidden (Options s)) name c) s1"
      unfolding File walked_Base_snoc by blast+
    from prems(1) File w1 e have w2: "walk_names (countFiles_fn w) p cs s1 = (r, ct')" by simp
    have o: "Options s1 = Options s" using c1 by (simp add: counted_def same_cfg_def)
    have "case scan_error_names (IncludeHidden (Options s)) cs of
              Some e \<Rightarrow> r = WErr e
            | None \<Rightarrow> r = WNil \<and> counted s1 (eligible_names (IncludeHidden (Options s)) cs) ct'"
      using "5.hyps"(2)[OF File w1[symmetric] _ w2] e o by (auto split: option.splits)
    moreover have "scan_error (IncludeHidden (Options s)) name c = None"
      using File by simp
    ultimately show ?thesis using c1 count_names_step by blast
  next
    case (Dir re me cs')
    obtain err s1 where w1: "walk (countFiles_fn w) (p @ [name]) c s = (err, s1)"
      by (cases "walk (countFiles_fn w) (p @ [name]) c s")
    note ih1 = "5.hyps"(3)[OF Dir w1, unfolded walked_Base_snoc]
    show ?thesis
    proof (cases "scan_error (IncludeHidden (Options s)) name c")
      case (Some e)
      with ih1 have "err = WErr e" by simp
      with prems Dir w1 Some show ?thesis by auto
    next
      case None
      with ih1 have ne: "\<forall>e. err \<noteq> WErr e"
        and c1: "counted s (eligible (IncludeHidden (Options s)) name c) s1" by auto
      then have ok: "err = WNil \<or> (IsDir c \<and> err = SkipDir)"
        using Dir by (cases err) auto
      from prems(1) Dir w1 ok have w2: "walk_names (countFiles_fn w) p cs s1 = (r, ct')" by auto
      have o: "Options s1 = Options s" using c1 by (simp add: counted_def same_cfg_def)
      have "case scan_error_names (IncludeHidden (Options s)) cs of
              Some e \<Rightarrow> r = WErr e
            | None \<Rightarrow> r = WNil \<and> counted s1 (eligible_names (IncludeHidden (Options s)) cs) ct'"
        using "5.hyps"(4)[OF Dir w1[symmetric] ok w2] o by (auto split: option.splits)
      then show ?thesis using c1 None count_names_step by blast
    qed
  qed
qed

lemma archived_refl: "archived zs [] 0 zs"
  by (simp add: archived_def same_cfg_def opened_def skipped_def total_bytes_def)

lemma archived_trans:
  "archived zs fs n zs1 \<Longrightarrow> archived zs1 gs m zs2 \<Longrightarrow> archived zs (fs @ gs) (n + m) zs2"
  by (simp add: archived_def same_cfg_def opened_def skipped_def total_bytes_def)

lemma walked_path_snoc:
  "walked_path w root (p @ [name]) = path_Join w (walked_path w root p) name"
  by (simp add: walked_path_def)

lemma archive_fn_err: "archive_fn w op sb p nd (Some e) zs = (WErr (OsErr e), zs)"
  by (simp add: archive_fn_def)

lemma archive_fn_pruned:
  "pruned w (z_task zs) p \<Longrightarrow>
     archive_fn w op sb p nd None zs = (if IsDir nd then SkipDir else WNil, zs)"
  by (simp add: archive_fn_def pruned_def)

lemma archive_fn_dir:
  "\<not> pruned w (z_task zs) p \<Longrightarrow> archive_fn w op sb p (Dir re me cs) None zs = (r, zs') \<Longrightarrow>
     (case me of
        Some e \<Rightarrow> r = WErr (OsErr e)
      | None \<Rightarrow> r = WNil \<and> archived zs [] 1 zs')"
  by (auto simp add: archive_fn_def pruned_def Let_def archived_def same_cfg_def opened_def
        skipped_def total_bytes_def file_entries_def marker_entries_def slash_markers_def
        ends_in_slash_def split: option.splits)

lemma archive_fn_file:
  "\<not> pruned w (z_task zs) p \<Longrightarrow> archive_fn w op sb p (File a) None zs = (r, zs') \<Longrightarrow>
     (case file_abort (walked_path w (SourcePath (z_task zs)) p) a of
        Some c \<Rightarrow> r = WErr c
      | None \<Rightarrow> r = WNil \<and> archived zs [a] 0 zs')"
  by (auto simp add: archive_fn_def pruned_def Let_def archived_def same_cfg_def opened_def
        skipped_def denied_def total_bytes_def file_entries_def marker_entries_def
        slash_markers_def file_abort_def updateProgress_def warnings_def
        split: option.splits if_splits)

lemma archive_names_step:
  assumes "first_abort join inc name (join path name) c = None"
    and "archived zs (eligible inc name c) (eligible_dirs inc name c) zs1"
    and "case first_abort_names join inc path cs of Some x \<Rightarrow> r = WErr x
         | None \<Rightarrow> r = WNil \<and>
             archived zs1 (eligible_names inc cs) (eligible_dirs_names inc cs) zs'"
  shows "case first_abort_names join inc path ((name, c) # cs) of Some x \<Rightarrow> r = WErr x
         | None \<Rightarrow> r = WNil \<and>
             archived zs (eligible_names inc ((name, c) # cs))
               (eligible_dirs_names inc ((name, c) # cs)) zs'"
  using assms archived_trans by (auto split: option.splits)

lemma archive_walk_File:
  assumes "walk (archive_fn w op sb) p (File a) zs = (r, zs')"
  shows "case first_abort (path_Join w) (IncludeHidden (Options (z_task zs)))
                (walked_Base w (SourcePath (z_task zs)) p)
                (walked_path w (SourcePath (z_task zs)) p) (File a) of
           Some x \<Rightarrow> r = WErr x
         | None \<Rightarrow> r = WNil \<and>
             archived zs (eligible (IncludeHidden (Options (z_task zs)))
                            (walked_Base w (SourcePath (z_task zs)) p) (File a)) 0 zs'"
proof (cases "pruned w (z_task zs) p")
  case True
  with assms show ?thesis
    by (auto simp add: archive_fn_pruned pruned_def archived_refl)
next
  case False
  from assms have "archive_fn w op sb p (File a) None zs = (r, zs')" by simp
  from archive_fn_file[OF False this] False show ?thesis
    by (auto simp add: pruned_def split: option.splits)
qed

lemma archive_walk:
  "walk (archive_fn w op sb) p nd zs = (r, zs') \<Longrightarrow>
     (case first_abort (path_Join w) (IncludeHidden (Options (z_task zs)))
                (walked_Base w (SourcePath (z_task zs)) p)
                (walked_path w (SourcePath (z_task zs)) p) nd of
        Some x \<Rightarrow> r = WErr x
      | None \<Rightarrow> (\<forall>x. r \<noteq> WErr x) \<and> (r = SkipDir \<longrightarrow> IsDir nd) \<and>
          archived zs (eligible (IncludeHidden (Options (z_task zs)))
                         (walked_Base w (SourcePath (z_task zs)) p) nd)
            (eligible_dirs (IncludeHidden (Options (z_task zs)))
                         (walked_Base w (SourcePath (z_task zs)) p) nd) zs')"
  "walk_names (archive_fn w op sb) p cs zs = (r, zs') \<Longrightarrow>
     (case first_abort_names (path_Join w) (IncludeHidden (Options (z_task zs)))
                (walked_path w (SourcePath (z_task zs)) p) cs of
        Some x \<Rightarrow> r = WErr x
      | None \<Rightarrow> r = WNil \<and>
          archived zs (eligible_names (IncludeHidden (Options (z_task zs))) cs)
            (eligible_dirs_names (IncludeHidden (Options (z_task zs))) cs) zs')"
proof (induction "archive_fn w op sb" p nd zs and "archive_fn w op sb" p cs zs
       arbitrary: r zs' and r zs' rule: walk_walk_names.induct)
  case (1 p a s)
  then show ?case using archive_walk_File[of w op sb p a s r zs']
    by (auto split: option.splits if_splits)
next
  case (2 p d e s)
  then show ?case by (auto simp add: archive_fn_err)
next
  case (3 p re me cs s)
  note prems = "3.prems"
  show ?case
  proof (cases re)
    case (Some e)
    with prems show ?thesis by (auto simp add: archive_fn_err)
  next
    case None
    show ?thesis
    proof (cases "pruned w (z_task s) p")
      case True
      with None prems show ?thesis
        by (auto simp add: archive_fn_pruned archived_refl pruned_def)
    next
      case False
      obtain err s1 where f: "archive_fn w op sb p (Dir re me cs) None s = (err, s1)"
        by (cases "archive_fn w op sb p (Dir re me cs) None s")
      note fd = archive_fn_dir[OF False f]
      show ?thesis
      proof (cases me)
        case (Some e)
        with fd have "err = WErr (OsErr e)" by simp
        with prems None f Some False show ?thesis by (auto simp add: pruned_def)
      next
        case me: None
        with fd have e: "err = WNil" and a1: "archived s [] 1 s1" by auto
        from prems None f e have w: "walk_names (archive_fn w op sb) p cs s1 = (r, zs')"
          by simp
        have cfg: "Options (z_task s1) = Options (z_task s)"
          "SourcePath (z_task s1) = SourcePath (z_task s)"
          using a1 by (simp_all add: archived_def same_cfg_def)
        have "case first_abort_names (path_Join w) (IncludeHidden (Options (z_task s)))
                (walked_path w (SourcePath (z_task s)) p) cs of
                Some x \<Rightarrow> r = WErr x
              | None \<Rightarrow> r = WNil \<and>
                  archived s1 (eligible_names (IncludeHidden (Options (z_task s))) cs)
                    (eligible_dirs_names (IncludeHidden (Options (z_task s))) cs) zs'"
          using "3.hyps"[of WNil s1 r zs'] None f e w cfg by (auto split: option.splits)
        then show ?thesis
          using archived_trans[OF a1] False None me
          by (auto simp add: pruned_def split: option.splits)
      qed
    qed
  qed
next
  case (4 p s)
  then show ?case by (simp add: archived_refl)
next
  case (5 p name c cs s)
  note prems = "5.prems"
  let ?inc = "IncludeHidden (Options (z_task s))"
  let ?root = "SourcePath (z_task s)"
  show ?case
  proof (cases c)
    case (NoStat d e)
    with prems show ?thesis
      by (auto simp add: archive_fn_err)
  next
    case (File a)
    obtain err s1 where w1: "walk (archive_fn w op sb) (p @ [name]) c s = (err, s1)"
      by (cases "walk (archive_fn w op sb) (p @ [name]) c s")
    from w1 have w1': "walk (archive_fn w op sb) (p @ [name]) (File a) s = (err, s1)"
      unfolding File .
    note ih1 = archive_walk_File[OF w1', unfolded walked_Base_snoc walked_path_snoc, folded File]
    show ?thesis
    proof (cases "first_abort (path_Join w) ?inc name (path_Join w (walked_path w ?root p) name) c")
      case (Some x)
      with ih1 have "err = WErr x" by simp
      with prems File w1 Some show ?thesis by auto
    next
      case None
      with ih1 have e: "err = WNil"
        and a1: "archived s (eligible ?inc name c) 0 s1" by auto
      from prems(1) File w1 e have w2: "walk_names (archive_fn w op sb) p cs s1 = (r, zs')"
        by simp
      have cfg: "Options (z_task s1) = Options (z_task s)"
        "SourcePath (z_task s1) = SourcePath (z_task s)"
        using a1 by (simp_all add: archived_def same_cfg_def)
      have "case first_abort_names (path_Join w) ?inc (walked_path w ?root p) cs of
                Some x \<Rightarrow> r = WErr x
              | None \<Rightarrow> r = WNil \<and>
                  archived s1 (eligible_names ?inc cs) (eligible_dirs_names ?inc cs) zs'"
        using "5.hyps"(2)[OF File w1[symmetric] _ w2] e cfg by (auto split: option.splits)
      moreover have "eligible_dirs ?inc name c = 0" using File by simp
      ultimately show ?thesis using archive_names_step[OF None] a1 by simp
    qed
  next
    case (Dir re me cs')
    obtain err s1 where w1: "walk (archive_fn w op sb) (p @ [name]) c s = (err, s1)"
      by (cases "walk (archive_fn w op sb) (p @ [name]) c s")
    note ih1 = "5.hyps"(3)[OF Dir w1, unfolded walked_Base_snoc walked_path_snoc]
    show ?thesis
    proof (cases "first_abort (path_Join w) ?inc name (path_Join w (walked_path w ?root p) name) c")
      case (Some x)
      with ih1 have "err = WErr x" by simp
      with prems Dir w1 Some show ?thesis by auto
    next
      case None
      with ih1 have ne: "\<forall>x. err \<noteq> WErr x"
        and a1: "archived s (eligible ?inc name c) (eligible_dirs ?inc name c) s1" by auto
      then have ok: "err = WNil \<or> (IsDir c \<and> err = SkipDir)"
        using Dir by (cases err) auto
      from prems(1) Dir w1 ok have w2: "walk_names (archive_fn w op sb) p cs s1 = (r, zs')"
        by auto
      have cfg: "Options (z_task s1) = Options (z_task s)"
        "SourcePath (z_task s1) = SourcePath (z_task s)"
        using a1 by (simp_all add: archived_def same_cfg_def)
      have "case first_abort_names (path_Join w) ?inc (walked_path w ?root p) cs of
                Some x \<Rightarrow> r = WErr x
              | None \<Rightarrow> r = WNil \<and>
                  archived s1 (eligible_names ?inc cs) (eligible_dirs_names ?inc cs) zs'"
        using "5.hyps"(4)[OF Dir w1[symmetric] ok w2] cfg by (auto split: option.splits)
      then show ?thesis using archive_names_step[OF None a1] by simp
    qed
  qed
qed

section \<open>The exits of Execute\<close>

lemma countFiles_result:
  assumes "countFiles w ct = (r, ct1)"
  shows "case scan_error (IncludeHidden (Options ct)) (path_Base w (SourcePath ct))
                (fs_lookup w (SourcePath ct)) of
           Some e \<Rightarrow> r = WErr e
         | None \<Rightarrow> r = WNil \<and>
             counted ct (eligible (IncludeHidden (Options ct)) (path_Base w (SourcePath ct))
                           (fs_lookup w (SourcePath ct))) ct1"
proof -
  obtain r0 where w0: "walk (countFiles_fn w) [] (fs_lookup w (SourcePath ct)) ct = (r0, ct1)"
    and r: "r = (if r0 = SkipDir then WNil else r0)"
    using assms by (auto simp add: countFiles_def filepath_Walk_def split: prod.splits if_splits)
  from count_walk(1)[OF w0] r show ?thesis
    by (cases r0) (auto simp add: walked_Base_def split: option.splits)
qed

lemma archive_Walk_result:
  assumes "filepath_Walk (archive_fn w op sb) nd zs = (r, zs')"
  shows "case first_abort (path_Join w) (IncludeHidden (Options (z_task zs)))
                (path_Base w (SourcePath (z_task zs))) (SourcePath (z_task zs)) nd of
           Some x \<Rightarrow> r = WErr x
         | None \<Rightarrow> r = WNil \<and>
             archived zs (eligible (IncludeHidden (Options (z_task zs)))
                            (path_Base w (SourcePath (z_task zs))) nd)
               (eligible_dirs (IncludeHidden (Options (z_task zs)))
                            (path_Base w (SourcePath (z_task zs))) nd) zs'"
proof -
  obtain r0 where w0: "walk (archive_fn w op sb) [] nd zs = (r0, zs')"
    and r: "r = (if r0 = SkipDir then WNil else r0)"
    using assms by (auto simp add: filepath_Walk_def split: prod.splits if_splits)
  from archive_walk(1)[OF w0] r show ?thesis
    by (cases r0) (auto simp add: walked_Base_def walked_path_def split: option.splits)
qed

lemma Execute_scan_failed:
  assumes "fs_lookup w (SourcePath ct) = Dir re me cs" "countFiles w ct = (WErr e, ct1)"
  shows "Execute w op ct =
     \<lparr>x_result = (result0 ct)\<lparr>Error := Some (ErrCountFailed e)\<rparr>, x_task = ct1,
      x_archive = None, x_ops = [OpStat (SourcePath ct), OpWalk (SourcePath ct)],
      x_events = [], x_dropped = []\<rparr>"
  using assms by (simp add: Execute_def result0_def)

lemma Execute_empty:
  assumes "fs_lookup w (SourcePath ct) = Dir re me cs" "countFiles w ct = (WNil, ct1)"
    "TotalFiles ct1 = 0"
  shows "Execute w op ct =
     \<lparr>x_result = (result0 ct)\<lparr>Error := Some ErrEmptyDirectory\<rparr>, x_task = ct1,
      x_archive = None, x_ops = [OpStat (SourcePath ct), OpWalk (SourcePath ct)],
      x_events = [], x_dropped = []\<rparr>"
  using assms by (simp add: Execute_def result0_def)

lemma Execute_no_space:
  assumes "fs_lookup w (SourcePath ct) = Dir re me cs" "countFiles w ct = (WNil, ct1)"
    "TotalFiles ct1 \<noteq> 0" "checkDiskSpace w ct1 = Some e"
  shows "Execute w op ct =
     \<lparr>x_result = (result0 ct)\<lparr>Error := Some e\<rparr>, x_task = ct1,
      x_archive = None,
      x_ops = [OpStat (SourcePath ct), OpWalk (SourcePath ct), OpStatfs (statfs_dir w ct1)],
      x_events = [], x_dropped = []\<rparr>"
  using assms by (simp add: Execute_def result0_def statfs_dir_def)

lemma Execute_create_failed:
  assumes "fs_lookup w (SourcePath ct) = Dir re me cs" "countFiles w ct = (WNil, ct1)"
    "TotalFiles ct1 \<noteq> 0" "checkDiskSpace w ct1 = None" "fs_create w (TargetZipPath ct1) = Some e"
  shows "Execute w op ct =
     \<lparr>x_result = (result0 ct)\<lparr>Error :=
         Some (if os_IsPermission e then ErrPermissionDenied else ErrCreateZipFailed e)\<rparr>,
      x_task = ct1, x_archive = None,
      x_ops = [OpStat (SourcePath ct), OpWalk (SourcePath ct), OpStatfs (statfs_dir w ct1),
               OpCreate (TargetZipPath ct1)],
      x_events = [], x_dropped = []\<rparr>"
  using assms by (simp add: Execute_def result0_def statfs_dir_def)

lemma Execute_archive_failed:
  assumes "fs_lookup w (SourcePath ct) = Dir re me cs" "countFiles w ct = (WNil, ct1)"
    "TotalFiles ct1 \<noteq> 0" "checkDiskSpace w ct1 = None" "fs_create w (TargetZipPath ct1) = None"
    "filepath_Walk (archive_fn w op (path_Base w (SourcePath ct1)))
       (created w (SourcePath ct1) (TargetZipPath ct1) (Dir re me cs)) (zstate0 ct1)
       = (WErr c, zs)"
  shows "Execute w op ct =
     \<lparr>x_result = (result0 ct)\<lparr>Error := Some (ErrCompressFailed c)\<rparr>,
      x_task = z_task zs, x_archive = Some (z_entries zs),
      x_ops = [OpStat (SourcePath ct), OpWalk (SourcePath ct), OpStatfs (statfs_dir w ct1),
               OpCreate (TargetZipPath ct1), OpWalk (SourcePath ct1),
               OpZipClose (TargetZipPath ct1), OpClose (TargetZipPath ct1)],
      x_events = z_events zs, x_dropped = dropped_errors w ct1\<rparr>"
  using assms
  by (simp add: Execute_def result0_def statfs_dir_def zstate0_def dropped_errors_def)

lemma Execute_success:
  assumes "fs_lookup w (SourcePath ct) = Dir re me cs" "countFiles w ct = (WNil, ct1)"
    "TotalFiles ct1 \<noteq> 0" "checkDiskSpace w ct1 = None" "fs_create w (TargetZipPath ct1) = None"
    "filepath_Walk (archive_fn w op (path_Base w (SourcePath ct1)))
       (created w (SourcePath ct1) (TargetZipPath ct1) (Dir re me cs)) (zstate0 ct1)
       = (WNil, zs)"
  shows "Execute w op ct =
     \<lparr>x_result = (result0 ct)\<lparr>Success := True, r_TotalFiles := TotalFiles (z_task zs),
                                 r_TotalSize := TotalSize (z_task zs),
                                 r_CompressedSize := z_compressedSize zs\<rparr>,
      x_task = z_task zs, x_archive = Some (z_entries zs),
      x_ops = [OpStat (SourcePath ct), OpWalk (SourcePath ct), OpStatfs (statfs_dir w ct1),
               OpCreate (TargetZipPath ct1), OpWalk (SourcePath ct1),
               OpZipClose (TargetZipPath ct1), OpClose (TargetZipPath ct1)],
      x_events = z_events zs, x_dropped = dropped_errors w ct1\<rparr>"
  using assms
  by (simp add: Execute_def result0_def statfs_dir_def zstate0_def dropped_errors_def)

section \<open>The pre-scan and the archive walk of one task\<close>

lemma outside_archive_tree:
  "outside w ct \<Longrightarrow> archive_tree w ct = fs_lookup w (SourcePath ct)"
  by (simp add: outside_def archive_tree_def created_def)

lemma outside_archive_files: "outside w ct \<Longrightarrow> archive_files w ct = source_files w ct"
  by (simp add: outside_archive_tree archive_files_def source_files_def)

lemma outside_archive_dirs: "outside w ct \<Longrightarrow> archive_dirs w ct = source_dirs w ct"
  by (simp add: outside_archive_tree archive_dirs_def source_dirs_def)

lemma fresh_NewCompressTask: "fresh (NewCompressTask src tgt opts)"
  by (simp add: fresh_def NewCompressTask_def Let_def)

lemma sint_of_nat_int64:
  "n < 2 ^ 63 \<Longrightarrow> sint (of_nat n :: int64) = int n"
proof -
  assume n: "n < 2 ^ 63"
  have "sint (of_nat n :: int64) = signed_take_bit 63 (int n)"
    by (simp add: signed_of_nat)
  also have "\<dots> = int n"
  proof (rule signed_take_bit_int_eq_self)
    show "- (2 ^ 63) \<le> int n" by (rule order_trans[of _ 0]) simp_all
    from n have "int n < int (2 ^ 63)" by (simp only: of_nat_less_iff)
    then show "int n < 2 ^ 63" by simp
  qed
  finally show ?thesis .
qed

lemma of_nat_int64_eq_0:
  "n < 2 ^ 63 \<Longrightarrow> (of_nat n :: int64) = 0 \<longleftrightarrow> n = 0"
proof
  assume n: "n < 2 ^ 63" and z: "(of_nat n :: int64) = 0"
  from sint_of_nat_int64[OF n] z show "n = 0" by simp
qed simp

lemma prescan:
  assumes "scan_failure w ct = None" "fresh ct"
  obtains ct1 where "countFiles w ct = (WNil, ct1)" "same_cfg ct ct1"
    "TotalFiles ct1 = of_nat (length (source_files w ct))"
    "TotalSize ct1 = of_nat (total_bytes (source_files w ct))"
proof -
  obtain r ct1 where c: "countFiles w ct = (r, ct1)" by (cases "countFiles w ct")
  from countFiles_result[OF c] assms(1)
  have "r = WNil" and "counted ct (source_files w ct) ct1"
    by (simp_all add: scan_failure_def source_files_def)
  with assms(2) c that show thesis
    by (simp add: counted_def fresh_def)
qed

lemma Execute_nostat:
  assumes "fs_lookup w (SourcePath ct) = NoStat d e"
  shows "Execute w op ct =
     \<lparr>x_result = (result0 ct)\<lparr>Error :=
         Some (if os_IsPermission e then ErrPermissionDenied
               else if os_IsNotExist e then ErrSourceNotExist else ErrOther e)\<rparr>,
      x_task = ct, x_archive = None, x_ops = [OpStat (SourcePath ct)], x_events = [], x_dropped = []\<rparr>"
  using assms by (simp add: Execute_def result0_def)

lemma Execute_notdir:
  assumes "fs_lookup w (SourcePath ct) = File a"
  shows "Execute w op ct =
     \<lparr>x_result = (result0 ct)\<lparr>Error := Some ErrSourceNotDirectory\<rparr>,
      x_task = ct, x_archive = None, x_ops = [OpStat (SourcePath ct)], x_events = [], x_dropped = []\<rparr>"
  using assms by (simp add: Execute_def result0_def)

lemma countFiles_cases:
  obtains (ok) ct1 where "countFiles w ct = (WNil, ct1)" "scan_failure w ct = None"
      "counted ct (source_files w ct) ct1"
  | (err) e ct1 where "countFiles w ct = (WErr e, ct1)" "scan_failure w ct = Some e"
proof -
  obtain r ct1 where c: "countFiles w ct = (r, ct1)" by (cases "countFiles w ct")
  show thesis
  proof (cases "scan_failure w ct")
    case None
    with countFiles_result[OF c] have "r = WNil" "counted ct (source_files w ct) ct1"
      by (simp_all add: scan_failure_def source_files_def)
    with c None ok show thesis by blast
  next
    case (Some e)
    with countFiles_result[OF c] have "r = WErr e" by (simp add: scan_failure_def)
    with c Some err show thesis by blast
  qed
qed

lemma archive_cases:
  assumes "same_cfg ct ct1"
  obtains (ok) zs where
      "filepath_Walk (archive_fn w op (path_Base w (SourcePath ct1)))
         (archive_tree w ct) (zstate0 ct1) = (WNil, zs)"
      "archive_failure w ct = None"
      "archived (zstate0 ct1) (archive_files w ct) (archive_dirs w ct) zs"
  | (err) c zs where
      "filepath_Walk (archive_fn w op (path_Base w (SourcePath ct1)))
         (archive_tree w ct) (zstate0 ct1) = (WErr c, zs)"
      "archive_failure w ct = Some c"
proof -
  let ?W = "filepath_Walk (archive_fn w op (path_Base w (SourcePath ct1)))
         (archive_tree w ct) (zstate0 ct1)"
  obtain r zs where c: "?W = (r, zs)" by (cases ?W)
  have z: "Options (z_task (zstate0 ct1)) = Options ct"
    "SourcePath (z_task (zstate0 ct1)) = SourcePath ct"
    using assms by (simp_all add: zstate0_def same_cfg_def)
  note res = archive_Walk_result[OF c, unfolded z]
  show thesis
  proof (cases "archive_failure w ct")
    case None
    with res have "r = WNil" "archived (zstate0 ct1) (archive_files w ct) (archive_dirs w ct) zs"
      by (simp_all add: archive_failure_def archive_files_def archive_dirs_def)
    with c None ok show thesis by blast
  next
    case (Some x)
    with res have "r = WErr x" by (simp add: archive_failure_def)
    with c Some err show thesis by blast
  qed
qed

text \<open>Every run of \<open>Execute\<close> leaves by one of eight exits.\<close>

lemma Execute_cases:
  obtains
    (nostat) d e where "fs_lookup w (SourcePath ct) = NoStat d e"
      "x_archive (Execute w op ct) = None" "\<not> Success (x_result (Execute w op ct))"
      "x_ops (Execute w op ct) = [OpStat (SourcePath ct)]"
      "Error (x_result (Execute w op ct)) =
         Some (if os_IsPermission e then ErrPermissionDenied
               else if os_IsNotExist e then ErrSourceNotExist else ErrOther e)"
  | (notdir) a where "fs_lookup w (SourcePath ct) = File a"
      "x_archive (Execute w op ct) = None" "\<not> Success (x_result (Execute w op ct))"
      "x_ops (Execute w op ct) = [OpStat (SourcePath ct)]"
      "Error (x_result (Execute w op ct)) = Some ErrSourceNotDirectory"
  | (scan) re me cs e where "fs_lookup w (SourcePath ct) = Dir re me cs"
      "scan_failure w ct = Some e"
      "x_archive (Execute w op ct) = None" "\<not> Success (x_result (Execute w op ct))"
      "x_ops (Execute w op ct) = [OpStat (SourcePath ct), OpWalk (SourcePath ct)]"
      "Error (x_result (Execute w op ct)) = Some (ErrCountFailed e)"
  | (empty) re me cs ct1 where "fs_lookup w (SourcePath ct) = Dir re me cs"
      "scan_failure w ct = None" "counted ct (source_files w ct) ct1" "TotalFiles ct1 = 0"
      "x_archive (Execute w op ct) = None" "\<not> Success (x_result (Execute w op ct))"
      "x_ops (Execute w op ct) = [OpStat (SourcePath ct), OpWalk (SourcePath ct)]"
      "Error (x_result (Execute w op ct)) = Some ErrEmptyDirectory"
  | (space) re me cs ct1 e where "fs_lookup w (SourcePath ct) = Dir re me cs"
      "scan_failure w ct = None" "counted ct (source_files w ct) ct1" "TotalFiles ct1 \<noteq> 0"
      "checkDiskSpace w ct1 = Some e"
      "x_archive (Execute w op ct) = None" "\<not> Success (x_result (Execute w op ct))"
      "x_ops (Execute w op ct) =
         [OpStat (SourcePath ct), OpWalk (SourcePath ct), OpStatfs (statfs_dir w ct)]"
      "Error (x_result (Execute w op ct)) = Some e"
  | (create) re me cs ct1 e where "fs_lookup w (SourcePath ct) = Dir re me cs"
      "scan_failure w ct = None" "counted ct (source_files w ct) ct1" "TotalFiles ct1 \<noteq> 0"
      "checkDiskSpace w ct1 = None" "fs_create w (TargetZipPath ct) = Some e"
      "x_archive (Execute w op ct) = None" "\<not> Success (x_result (Execute w op ct))"
      "x_ops (Execute w op ct) =
         [OpStat (SourcePath ct), OpWalk (SourcePath ct), OpStatfs (statfs_dir w ct),
          OpCreate (TargetZipPath ct)]"
      "Error (x_result (Execute w op ct)) =
         Some (if os_IsPermission e then ErrPermissionDenied else ErrCreateZipFailed e)"
  | (archive) re me cs ct1 c zs where "fs_lookup w (SourcePath ct) = Dir re me cs"
      "scan_failure w ct = None" "counted ct (source_files w ct) ct1" "TotalFiles ct1 \<noteq> 0"
      "checkDiskSpace w ct1 = None" "fs_create w (TargetZipPath ct) = None"
      "archive_failure w ct = Some c"
      "x_archive (Execute w op ct) = Some (z_entries (zs :: zstate))"
      "\<not> Success (x_result (Execute w op ct))"
      "x_ops (Execute w op ct) =
         [OpStat (SourcePath ct), OpWalk (SourcePath ct), OpStatfs (statfs_dir w ct),
          OpCreate (TargetZipPath ct), OpWalk (SourcePath ct),
          OpZipClose (TargetZipPath ct), OpClose (TargetZipPath ct)]"
      "Error (x_result (Execute w op ct)) = Some (ErrCompressFailed c)"
      "x_dropped (Execute w op ct) = dropped_errors w ct"
  | (success) re me cs ct1 zs where "fs_lookup w (SourcePath ct) = Dir re me cs"
      "scan_failure w ct = None" "counted ct (source_files w ct) ct1" "TotalFiles ct1 \<noteq> 0"
      "checkDiskSpace w ct1 = None" "fs_create w (TargetZipPath ct) = None"
      "archive_failure w ct = None"
      "archived (zstate0 ct1) (archive_files w ct) (archive_dirs w ct) zs"
      "x_archive (Execute w op ct) = Some (z_entries zs)"
      "x_events (Execute w op ct) = z_events zs"
      "x_result (Execute w op ct) =
         (result0 ct)\<lparr>Success := True, r_TotalFiles := TotalFiles (z_task zs),
                        r_TotalSize := TotalSize (z_task zs),
                        r_CompressedSize := z_compressedSize zs\<rparr>"
      "x_ops (Execute w op ct) =
         [OpStat (SourcePath ct), OpWalk (SourcePath ct), OpStatfs (statfs_dir w ct),
          OpCreate (TargetZipPath ct), OpWalk (SourcePath ct),
          OpZipClose (TargetZipPath ct), OpClose (TargetZipPath ct)]"
      "x_dropped (Execute w op ct) = dropped_errors w ct"
proof (cases "fs_lookup w (SourcePath ct)")
  case (File a)
  from Execute_notdir[OF this, of op] File notdir show ?thesis by (simp add: result0_def)
next
  case (NoStat d e)
  from Execute_nostat[OF this, of op] NoStat nostat[of d e] show ?thesis
    by (simp add: result0_def)
next
  case (Dir re me cs)
  show ?thesis
  proof (cases rule: countFiles_cases[of w ct])
    case (err e ct1)
    from Execute_scan_failed[OF Dir err(1), of op] Dir err(2) scan show ?thesis
      by (simp add: result0_def)
  next
    case (ok ct1)
    then have cfg: "same_cfg ct ct1" by (simp add: counted_def)
    then have eq: "SourcePath ct1 = SourcePath ct" "TargetZipPath ct1 = TargetZipPath ct"
      "statfs_dir w ct1 = statfs_dir w ct" "dropped_errors w ct1 = dropped_errors w ct"
      by (simp_all add: same_cfg_def statfs_dir_def dropped_errors_def)
    have tree: "archive_tree w ct =
        created w (SourcePath ct1) (TargetZipPath ct1) (Dir re me cs)"
      using eq Dir by (simp add: archive_tree_def)
    show ?thesis
    proof (cases "TotalFiles ct1 = 0")
      case True
      from Execute_empty[OF Dir ok(1) True, of op] Dir ok True empty show ?thesis
        by (simp add: result0_def)
    next
      case nz: False
      show ?thesis
      proof (cases "checkDiskSpace w ct1")
        case (Some e)
        from Execute_no_space[OF Dir ok(1) nz Some, of op] Dir ok nz Some eq space
        show ?thesis by (simp add: result0_def)
      next
        case cd: None
        show ?thesis
        proof (cases "fs_create w (TargetZipPath ct1)")
          case (Some e)
          from Execute_create_failed[OF Dir ok(1) nz cd Some, of op] Dir ok nz cd Some eq
            create[of re me cs ct1 e]
          show ?thesis by (simp add: result0_def)
        next
          case cr: None
          from cfg show ?thesis
          proof (cases rule: archive_cases[where w = w and op = op])
            case (err c zs)
            from Execute_archive_failed[OF Dir ok(1) nz cd cr err(1)[unfolded tree]]
              Dir ok nz cd cr eq err(2) archive[of re me cs ct1 c zs]
            show ?thesis by (simp add: result0_def)
          next
            case zok: (ok zs)
            from Execute_success[OF Dir ok(1) nz cd cr zok(1)[unfolded tree]]
              Dir ok nz cd cr eq zok(2,3) success[of re me cs ct1 zs]
            show ?thesis by (simp add: result0_def)
          qed
        qed
      qed
    qed
  qed
qed

section \<open>Properties of CompressTask.Execute\<close>

text \<open>
  C7. When the pre-scan of a task whose counters start at zero (as \<open>NewCompressTask\<close> makes
  them) completes and finds no eligible file, \<open>Execute\<close> returns a failed result with the
  empty-directory error, and the archive file is never created: \<^verbatim>\<open>os.Create\<close> is not
  among the system calls made.
\<close>

theorem C7_empty_directory_no_archive:
  assumes "fs_lookup w (SourcePath ct) = Dir re me cs"
    and "fresh ct"
    and "scan_failure w ct = None"
    and "source_files w ct = []"
  shows "\<not> Success (x_result (Execute w op ct)) \<and>
         Error (x_result (Execute w op ct)) = Some ErrEmptyDirectory \<and>
         x_archive (Execute w op ct) = None \<and>
         x_ops (Execute w op ct) = [OpStat (SourcePath ct), OpWalk (SourcePath ct)]"
proof -
  from prescan[OF assms(3,2)] obtain ct1 where
    c: "countFiles w ct = (WNil, ct1)" and
    n: "TotalFiles ct1 = of_nat (length (source_files w ct))" by blast
  from n assms(4) have "TotalFiles ct1 = 0" by simp
  from Execute_empty[OF assms(1) c this] show ?thesis
    by (simp add: result0_def)
qed

theorem C7_empty_directory_witness:
  "fresh task7 \<and> scan_failure w7 task7 = None \<and> source_files w7 task7 = [] \<and>
   \<not> Success (x_result (Execute w7 False task7)) \<and>
   Error (x_result (Execute w7 False task7)) = Some ErrEmptyDirectory \<and>
   x_archive (Execute w7 False task7) = None \<and>
   x_ops (Execute w7 False task7) = [OpStat ''/data/d'', OpWalk ''/data/d'']"
proof -
  have h1: "fs_lookup w7 (SourcePath task7) =
      Dir None None [(''.cache'', Dir None None [(''x'', reg 7)]), (''.env'', reg 5)]"
    by (simp add: w7_def demo_world_def at_path_def task7_def NewCompressTask_def
          hidden_only_tree_def)
  have h2: "fresh task7" by (simp add: task7_def fresh_NewCompressTask)
  have h3: "scan_failure w7 task7 = None" by code_simp
  have h4: "source_files w7 task7 = []" by code_simp
  have h5: "SourcePath task7 = ''/data/d''" by (simp add: task7_def NewCompressTask_def)
  from C7_empty_directory_no_archive[OF h1 h2 h3 h4, of False] h2 h3 h4 h5
  show ?thesis by simp
qed

text \<open>
  C6. The free-space query is the third system call of \<open>Execute\<close>, after \<^verbatim>\<open>os.Stat\<close> and
  the pre-scan walk, on the directory of the target path, and \<^verbatim>\<open>os.Create\<close> can only follow
  it. When the query fails the check passes and \<open>Execute\<close> goes on to create the archive;
  when it answers, the result is the disk-space error exactly if the source total size
  exceeds the free space, and then no archive file is created.
\<close>

theorem C6_disk_space_preflight:
  assumes "fs_lookup w (SourcePath ct) = Dir re me cs"
    and "fresh ct"
    and "scan_failure w ct = None"
    and "0 < length (source_files w ct)"
    and "length (source_files w ct) < 2 ^ 63"
    and "total_bytes (source_files w ct) < 2 ^ 63"
  shows "take 3 (x_ops (Execute w op ct)) =
           [OpStat (SourcePath ct), OpWalk (SourcePath ct), OpStatfs (statfs_dir w ct)] \<and>
         (fs_statfs w (statfs_dir w ct) = None \<longrightarrow>
            checkDiskSpace w ct = None \<and>
            Error (x_result (Execute w op ct)) \<noteq> Some ErrDiskSpaceInsufficient \<and>
            take 4 (x_ops (Execute w op ct)) =
              [OpStat (SourcePath ct), OpWalk (SourcePath ct), OpStatfs (statfs_dir w ct),
               OpCreate (TargetZipPath ct)]) \<and>
         (\<forall>bavail bsize. fs_statfs w (statfs_dir w ct) = Some (bavail, bsize) \<longrightarrow>
            (if sint (bavail * bsize) < int (total_bytes (source_files w ct))
             then \<not> Success (x_result (Execute w op ct)) \<and>
                  Error (x_result (Execute w op ct)) = Some ErrDiskSpaceInsufficient \<and>
                  x_archive (Execute w op ct) = None \<and>
                  x_ops (Execute w op ct) =
                    [OpStat (SourcePath ct), OpWalk (SourcePath ct),
                     OpStatfs (statfs_dir w ct)]
             else Error (x_result (Execute w op ct)) \<noteq> Some ErrDiskSpaceInsufficient \<and>
                  take 4 (x_ops (Execute w op ct)) =
                    [OpStat (SourcePath ct), OpWalk (SourcePath ct),
                     OpStatfs (statfs_dir w ct), OpCreate (TargetZipPath ct)]))"
proof -
  let ?S = "total_bytes (source_files w ct)"
  have size: "\<And>ct1. counted ct (source_files w ct) ct1 \<Longrightarrow>
      sint (TotalSize ct1) = int ?S \<and> TotalFiles ct1 \<noteq> 0 \<and> statfs_dir w ct1 = statfs_dir w ct"
  proof -
    fix ct1 assume c: "counted ct (source_files w ct) ct1"
    with assms(2) have "TotalSize ct1 = of_nat ?S"
      and n: "TotalFiles ct1 = of_nat (length (source_files w ct))"
      and t: "TargetZipPath ct1 = TargetZipPath ct"
      by (simp_all add: counted_def fresh_def same_cfg_def)
    then have "sint (TotalSize ct1) = int ?S" using sint_of_nat_int64[OF assms(6)] by simp
    moreover have "TotalFiles ct1 \<noteq> 0"
      using n of_nat_int64_eq_0[OF assms(5)] assms(4) by simp
    ultimately show "sint (TotalSize ct1) = int ?S \<and> TotalFiles ct1 \<noteq> 0 \<and>
        statfs_dir w ct1 = statfs_dir w ct"
      using t by (simp add: statfs_dir_def)
  qed
  have check: "\<And>ct1. counted ct (source_files w ct) ct1 \<Longrightarrow>
      checkDiskSpace w ct1 =
        (case fs_statfs w (statfs_dir w ct) of
           None \<Rightarrow> None
         | Some (bavail, bsize) \<Rightarrow>
             if sint (bavail * bsize) < int ?S then Some ErrDiskSpaceInsufficient else None)"
    using size by (auto simp add: checkDiskSpace_def statfs_dir_def Let_def split: option.splits)
  have noop: "fs_statfs w (statfs_dir w ct) = None \<Longrightarrow> checkDiskSpace w ct = None"
    by (simp add: checkDiskSpace_def statfs_dir_def Let_def)
  show ?thesis
  proof (cases rule: Execute_cases[of w ct op])
    case (nostat d e)
    with assms(1) show ?thesis by simp
  next
    case (notdir a)
    with assms(1) show ?thesis by simp
  next
    case (scan re me cs e)
    with assms(3) show ?thesis by simp
  next
    case (empty re me cs ct1)
    with size[OF empty(3)] show ?thesis by simp
  next
    case (space re me cs ct1 e)
    with check[OF space(3)] noop show ?thesis
      by (auto split: option.splits if_splits)
  next
    case (create re me cs ct1 e)
    with check[OF create(3)] noop show ?thesis
      by (auto split: option.splits if_splits)
  next
    case (archive re me cs ct1 c zs)
    with check[OF archive(3)] noop show ?thesis
      by (auto split: option.splits if_splits)
  next
    case (success re me cs ct1 zs)
    with check[OF success(3)] noop show ?thesis
      by (auto simp add: result0_def split: option.splits if_splits)
  qed
qed

theorem C6_disk_space_witness:
  "total_bytes (source_files w6_small task7) = 60 \<and>
   fs_statfs w6_small (statfs_dir w6_small task7) = Some (1, 16) \<and>
   Error (x_result (Execute w6_small False task7)) = Some ErrDiskSpaceInsufficient \<and>
   x_archive (Execute w6_small False task7) = None \<and>
   x_ops (Execute w6_small False task7) =
     [OpStat ''/data/d'', OpWalk ''/data/d'', OpStatfs ''/data''] \<and>
   fs_statfs w6_unknown (statfs_dir w6_unknown task7) = None \<and>
   checkDiskSpace w6_unknown task7 = None \<and>
   Error (x_result (Execute w6_unknown False task7)) \<noteq> Some ErrDiskSpaceInsufficient \<and>
   take 4 (x_ops (Execute w6_unknown False task7)) =
     [OpStat ''/data/d'', OpWalk ''/data/d'', OpStatfs ''/data'', OpCreate ''/data/d.zip'']"
proof -
  have tree: "scenario_tree =
     Dir None None [(''.secret'', reg 5), (''a.txt'', reg 10), (''b.txt'', reg 20),
                    (''c.txt'', reg 30)]" by (simp add: scenario_tree_def)
  have f: "fresh task7" by (simp add: task7_def fresh_NewCompressTask)
  have p: "SourcePath task7 = ''/data/d''" "TargetZipPath task7 = ''/data/d.zip''"
    by (simp_all add: task7_def NewCompressTask_def)
  have a1: "fs_lookup w6_small (SourcePath task7) =
     Dir None None [(''.secret'', reg 5), (''a.txt'', reg 10), (''b.txt'', reg 20),
                    (''c.txt'', reg 30)]"
    by (simp add: w6_small_def demo_world_def at_path_def p tree)
  have a3: "scan_failure w6_small task7 = None" by code_simp
  have a4: "length (source_files w6_small task7) = 3" by code_simp
  have a6: "total_bytes (source_files w6_small task7) = 60" by code_simp
  have d1: "statfs_dir w6_small task7 = ''/data''" by code_simp
  have s1: "fs_statfs w6_small ''/data'' = Some (1, 16)"
    by (simp add: w6_small_def demo_world_def)
  have lt: "sint (1 * 16 :: int64) < int 60" by simp
  have b1: "fs_lookup w6_unknown (SourcePath task7) =
     Dir None None [(''.secret'', reg 5), (''a.txt'', reg 10), (''b.txt'', reg 20),
                    (''c.txt'', reg 30)]"
    by (simp add: w6_unknown_def demo_world_def at_path_def p tree)
  have b3: "scan_failure w6_unknown task7 = None" by code_simp
  have b4: "length (source_files w6_unknown task7) = 3" by code_simp
  have b6: "total_bytes (source_files w6_unknown task7) = 60" by code_simp
  have d2: "statfs_dir w6_unknown task7 = ''/data''" by code_simp
  have s2: "fs_statfs w6_unknown ''/data'' = None"
    by (simp add: w6_unknown_def demo_world_def)
  from C6_disk_space_preflight[OF a1 f a3, of False] a4 a6 d1 s1 lt
  have small: "Error (x_result (Execute w6_small False task7)) = Some ErrDiskSpaceInsufficient \<and>
      x_archive (Execute w6_small False task7) = None \<and>
      x_ops (Execute w6_small False task7) =
        [OpStat ''/data/d'', OpWalk ''/data/d'', OpStatfs ''/data'']"
    by (simp add: p)
  from C6_disk_space_preflight[OF b1 f b3, of False] b4 b6 d2 s2
  have unknown: "checkDiskSpace w6_unknown task7 = None \<and>
      Error (x_result (Execute w6_unknown False task7)) \<noteq> Some ErrDiskSpaceInsufficient \<and>
      take 4 (x_ops (Execute w6_unknown False task7)) =
        [OpStat ''/data/d'', OpWalk ''/data/d'', OpStatfs ''/data'', OpCreate ''/data/d.zip'']"
    by (simp add: p)
  from small unknown a6 d1 s1 d2 s2 show ?thesis by simp
qed

text \<open>
  C2 (amended). For a task whose counters start at zero and whose target does not lie
  below the source directory, a successful \<open>Execute\<close> whose archive was closed without error
  returns \<open>TotalFiles = N\<close> and \<open>TotalSize = S\<close>, the number and the total size of the
  eligible files, and the archive produced holds exactly \<open>N\<close> file entries and one marker
  entry, its name ending in \<^verbatim>\<open>/\<close>, for every directory that is not pruned: the source
  directory itself and every visited subdirectory, empty or not.
\<close>

theorem C2_totals_and_entries:
  assumes "fresh ct"
    and "Success (x_result (Execute w op ct))"
    and "outside w ct"
    and "x_dropped (Execute w op ct) = []"
    and "length (source_files w ct) < 2 ^ 63"
    and "total_bytes (source_files w ct) < 2 ^ 63"
  shows "sint (r_TotalFiles (x_result (Execute w op ct))) = int (length (source_files w ct)) \<and>
         sint (r_TotalSize (x_result (Execute w op ct))) = int (total_bytes (source_files w ct)) \<and>
         (\<exists>es. produced (Execute w op ct) = Some es \<and>
               length (file_entries es) = length (source_files w ct) \<and>
               length (marker_entries es) = source_dirs w ct \<and>
               slash_markers es)"
proof (cases rule: Execute_cases[of w ct op])
  case (success re me cs ct1 zs)
  from success(3) assms(1) have
    n: "TotalFiles ct1 = of_nat (length (source_files w ct))" and
    s: "TotalSize ct1 = of_nat (total_bytes (source_files w ct))"
    by (simp_all add: counted_def fresh_def)
  from success(8) have
    "archived (zstate0 ct1) (source_files w ct) (source_dirs w ct) zs"
    by (simp add: outside_archive_files[OF assms(3)] outside_archive_dirs[OF assms(3)])
  then have
    t: "TotalFiles (z_task zs) = TotalFiles ct1" "TotalSize (z_task zs) = TotalSize ct1" and
    e: "length (file_entries (z_entries zs)) = length (source_files w ct)"
       "length (marker_entries (z_entries zs)) = source_dirs w ct"
       "slash_markers (z_entries zs)"
    by (simp_all add: archived_def zstate0_def file_entries_def marker_entries_def
          slash_markers_def)
  from success(11) t n s have
    "r_TotalFiles (x_result (Execute w op ct)) = of_nat (length (source_files w ct))"
    "r_TotalSize (x_result (Execute w op ct)) = of_nat (total_bytes (source_files w ct))"
    by (simp_all add: result0_def)
  moreover from success(9) assms(4) have
    "produced (Execute w op ct) = Some (z_entries zs)" by (simp add: produced_def)
  ultimately show ?thesis
    using sint_of_nat_int64[OF assms(5)] sint_of_nat_int64[OF assms(6)] e by simp
qed (use assms(2) in simp_all)

theorem C2_totals_and_entries_witness:
  "fresh task7 \<and> Success (x_result (Execute w2 False task7)) \<and> outside w2 task7 \<and>
   x_dropped (Execute w2 False task7) = [] \<and>
   length (source_files w2 task7) = 3 \<and> total_bytes (source_files w2 task7) = 60 \<and>
   source_dirs w2 task7 = 1 \<and>
   sint (r_TotalFiles (x_result (Execute w2 False task7))) = 3 \<and>
   sint (r_TotalSize (x_result (Execute w2 False task7))) = 60 \<and>
   (\<exists>es. produced (Execute w2 False task7) = Some es \<and>
         length (file_entries es) = 3 \<and> length (marker_entries es) = 1 \<and> slash_markers es)"
proof -
  have f: "fresh task7" by (simp add: task7_def fresh_NewCompressTask)
  have s: "Success (x_result (Execute w2 False task7))" by code_simp
  have o: "outside w2 task7" by code_simp
  have c: "x_dropped (Execute w2 False task7) = []" by code_simp
  have n: "length (source_files w2 task7) = 3" by code_simp
  have b: "total_bytes (source_files w2 task7) = 60" by code_simp
  have d: "source_dirs w2 task7 = 1" by code_simp
  from C2_totals_and_entries[OF f s o c] n b d f s o c show ?thesis by simp
qed

text \<open>
  C2 as the specification states it, with one marker for each empty subdirectory and none
  for a directory that is not empty, fails on the specification's own scenario: the source
  directory holds three eligible files and no subdirectory at all, and the archive carries
  a marker entry for the source directory itself. With the target inside that directory
  the archive also carries a fourth file entry, the archive file itself, while the result
  reports three files.
\<close>

theorem C2_marker_counterexample:
  "Success (x_result (Execute w2 False task7)) \<and>
   produced (Execute w2 False task7) =
     Some [DirMarker ''d/'', FileEntry ''d/a.txt'', FileEntry ''d/b.txt'', FileEntry ''d/c.txt''] \<and>
   empty_dirs False ''d'' (fs_lookup w2 ''/data/d'') = 0 \<and>
   length (marker_entries
     [DirMarker ''d/'', FileEntry ''d/a.txt'', FileEntry ''d/b.txt'', FileEntry ''d/c.txt'']) \<noteq>
     empty_dirs False ''d'' (fs_lookup w2 ''/data/d'') \<and>
   Success (x_result (Execute w2 False task_inside)) \<and>
   length (source_files w2 task_inside) = 3 \<and>
   r_TotalFiles (x_result (Execute w2 False task_inside)) = 3 \<and>
   produced (Execute w2 False task_inside) =
     Some [DirMarker ''d/'', FileEntry ''d/a.txt'', FileEntry ''d/b.txt'', FileEntry ''d/c.txt'',
           FileEntry ''d/out.zip'']"
  by code_simp

text \<open>
  Once the archive file has been created, what \<open>Execute\<close> returns is decided by the first
  aborting cause of the second walk. A file that cannot be opened for lack of permission
  is no such cause: the run succeeds with one printed warning for each such file, whose
  bytes are not counted as compressed. Any other error of opening or copying a file, or of
  starting an entry, makes the task fail with \<open>ErrCompressFailed\<close> wrapping that cause. The
  errors of the two calls of \<^verbatim>\<open>Close\<close> have no part in it.
\<close>

lemma archive_walk_decides:
  assumes "x_archive (Execute w op ct) = Some es"
  shows "case archive_failure w ct of
           None \<Rightarrow>
             Success (x_result (Execute w op ct)) \<and>
             Error (x_result (Execute w op ct)) = None \<and>
             length (warnings (x_events (Execute w op ct))) =
               length (skipped (archive_files w ct)) \<and>
             length (file_entries es) = length (archive_files w ct) \<and>
             r_CompressedSize (x_result (Execute w op ct)) =
               of_nat (total_bytes (opened (archive_files w ct)))
         | Some c \<Rightarrow>
             \<not> Success (x_result (Execute w op ct)) \<and>
             Error (x_result (Execute w op ct)) = Some (ErrCompressFailed c)"
proof (cases rule: Execute_cases[of w ct op])
  case (archive re me cs ct1 c zs)
  then show ?thesis by simp
next
  case (success re me cs ct1 zs)
  from success(8) have
    "length (warnings (z_events zs)) = length (skipped (archive_files w ct))"
    "length (file_entries (z_entries zs)) = length (archive_files w ct)"
    "z_compressedSize zs = of_nat (total_bytes (opened (archive_files w ct)))"
    by (simp_all add: archived_def zstate0_def warnings_def file_entries_def)
  with success(7,9,10,11) assms show ?thesis by (simp add: result0_def)
qed (use assms in simp_all)

text \<open>What one file does to the walk, read off \<open>file_abort\<close>.\<close>

lemma file_abort_permission:
  "f_header a = None \<Longrightarrow> f_create a = None \<Longrightarrow> f_open a = Some e \<Longrightarrow> os_IsPermission e \<Longrightarrow>
     file_abort path a = None \<and> denied a"
  by (simp add: file_abort_def denied_def)

lemma file_abort_open:
  "f_header a = None \<Longrightarrow> f_create a = None \<Longrightarrow> f_open a = Some e \<Longrightarrow> \<not> os_IsPermission e \<Longrightarrow>
     file_abort path a = Some (OsErr e)"
  by (simp add: file_abort_def)

lemma file_abort_copy:
  "f_header a = None \<Longrightarrow> f_create a = None \<Longrightarrow> f_open a = None \<Longrightarrow> f_copy a = Some e \<Longrightarrow>
     file_abort path a = Some (WriteFailed path e)"
  by (simp add: file_abort_def)

text \<open>
  A file that \<^verbatim>\<open>os.Open\<close> refuses with either of the two permission errors is skipped with
  one warning; one that it refuses with another error, or that cannot be copied, ends the
  run.
\<close>

lemma archive_walk_examples:
  "Success (x_result (Execute w5_denied True task7)) \<and>
   produced (Execute w5_denied True task7) =
     Some [DirMarker ''d/'', FileEntry ''d/a.txt'', FileEntry ''d/b.txt'', FileEntry ''d/c.txt''] \<and>
   length (warnings (x_events (Execute w5_denied True task7))) = 1 \<and>
   r_CompressedSize (x_result (Execute w5_denied True task7)) = 40 \<and>
   Success (x_result (Execute w5_eperm True task7)) \<and>
   length (warnings (x_events (Execute w5_eperm True task7))) = 1 \<and>
   r_CompressedSize (x_result (Execute w5_eperm True task7)) = 40 \<and>
   x_archive (Execute w5_open True task7) =
     Some [DirMarker ''d/'', FileEntry ''d/a.txt'', FileEntry ''d/b.txt''] \<and>
   Error (x_result (Execute w5_open True task7)) = Some (ErrCompressFailed (OsErr (EIO 5)))"
  by code_simp

text \<open>
  C5. The claim that every I/O error of writing the archive other than a permission error
  of \<^verbatim>\<open>os.Open\<close> aborts the task with \<open>ErrCompressFailed\<close> does not hold of the code. On a
  disk that fills up when \<^verbatim>\<open>zipWriter.Close\<close> flushes the entries and writes the central
  directory, the seven system calls of \<open>Execute\<close> end with the two calls of \<^verbatim>\<open>Close\<close>, the
  error of the first is dropped, and the task succeeds with no error and no archive that
  can be relied on. The same kind of error met by \<^verbatim>\<open>io.Copy\<close> inside the walk ends the task
  with \<open>ErrCompressFailed\<close>, as the claim says.
\<close>

theorem C5_close_error_dropped:
  "zip_close w5_full ''/data/d.zip'' = Some (EIO 28) \<and>
   x_ops (Execute w5_full True task7) =
     [OpStat ''/data/d'', OpWalk ''/data/d'', OpStatfs ''/data'', OpCreate ''/data/d.zip'',
      OpWalk ''/data/d'', OpZipClose ''/data/d.zip'', OpClose ''/data/d.zip''] \<and>
   x_dropped (Execute w5_full True task7) = [EIO 28] \<and>
   Success (x_result (Execute w5_full True task7)) \<and>
   Error (x_result (Execute w5_full True task7)) = None \<and>
   produced (Execute w5_full True task7) = None \<and>
   \<not> Success (x_result (Execute w5_copy True task7)) \<and>
   Error (x_result (Execute w5_copy True task7)) =
     Some (ErrCompressFailed (WriteFailed ''/data/d/b.txt'' (EIO 5)))"
  by code_simp

section \<open>The run loop of the queue\<close>

lemma runs_append: "runs (xs @ ys) = runs xs @ runs ys"
  by (induction xs rule: runs.induct) simp_all

lemma runs_forward_progress: "runs (forward_progress i evs) = []"
  by (induction i evs rule: forward_progress.induct) simp_all

lemma QueueComplete_forward_progress: "EvQueueComplete \<notin> set (forward_progress i evs)"
  by (induction i evs rule: forward_progress.induct) simp_all

lemma run_items_Cons_cases:
  assumes "run_items exec cq i (item # rest) s sch = Some (ex, its1, s1, evs)"
  obtains (broke) "ex = Broke i" "its1 = item # rest" "evs = []"
  | (returned) "ex = Returned i" "its1 = item # rest" "evs = []"
  | (ran) item1 rest1 s2 sch2 evs0 evs1 where
      "run_items exec cq (Suc i) rest s2 sch2 = Some (ex, rest1, s1, evs1)"
      "its1 = item1 # rest1" "terminal item1" "evs = evs0 @ evs1" "runs evs0 = [i]"
      "EvQueueComplete \<notin> set evs0"
proof -
  obtain sa scha where g: "GetStatus s sch = (sa, scha)" by (cases "GetStatus s sch")
  show thesis
  proof (cases "sa = QueueStatusStopped")
    case True
    with assms g broke show thesis by simp
  next
    case ns: False
    show thesis
    proof (cases "wait_paused sa scha")
      case None
      with assms g ns show thesis by simp
    next
      case (Some r)
      obtain go s2 sch2 where r: "r = (go, s2, sch2)" by (cases r)
      show thesis
      proof (cases go)
        case False
        with assms g ns Some r returned show thesis by simp
      next
        case True
        let ?out = "exec i (Task (item\<lparr>Status := ''running''\<rparr>))"
        let ?item = "item\<lparr>Status := ''running'', Task := x_task ?out,
              Result := Some (x_result ?out),
              Status := (if Success (x_result ?out) then ''completed'' else ''failed'')\<rparr>"
        let ?evs0 = "(if OnTaskStart cq then [EvTaskStart i] else []) @
              (EvTaskRun i # (if OnTaskProgress cq then forward_progress i (x_events ?out) else [])) @
              (if OnTaskComplete cq then [EvTaskComplete i] else [])"
        from assms g ns Some r True obtain rest1 evs1 where
          rec: "run_items exec cq (Suc i) rest s2 sch2 = Some (ex, rest1, s1, evs1)"
          and its: "its1 = ?item # rest1" and evs: "evs = ?evs0 @ evs1"
          by (auto simp add: Let_def split: option.splits)
        have t: "terminal ?item" by (simp add: terminal_def)
        have r0: "runs ?evs0 = [i]" by (simp add: runs_append runs_forward_progress)
        have q0: "EvQueueComplete \<notin> set ?evs0" by (simp add: QueueComplete_forward_progress)
        from ran[OF rec its t evs r0 q0] show thesis .
      qed
    qed
  qed
qed

lemma run_items_shape:
  "run_items exec cq i its s sch = Some (ex, its1, s1, evs) \<Longrightarrow>
     ex \<noteq> Rejected \<and> length its1 = length its \<and> EvQueueComplete \<notin> set evs \<and>
     (case stopped_at ex of
        None \<Rightarrow> list_all terminal its1 \<and> runs evs = [i..<i + length its]
      | Some j \<Rightarrow> i \<le> j \<and> j < i + length its \<and>
          list_all terminal (take (j - i) its1) \<and>
          drop (j - i) its1 = drop (j - i) its \<and> runs evs = [i..<j])"
proof (induction its arbitrary: i s sch its1 evs)
  case Nil
  then show ?case by auto
next
  case (Cons item rest)
  from Cons.prems show ?case
  proof (cases rule: run_items_Cons_cases)
    case broke
    then show ?thesis by simp
  next
    case returned
    then show ?thesis by simp
  next
    case (ran item1 rest1 s2 sch2 evs0 evs1)
    note ih = Cons.IH[OF ran(1)]
    show ?thesis
    proof (cases "stopped_at ex")
      case None
      with ih ran show ?thesis
        by (simp add: runs_append upt_conv_Cons del: upt_Suc)
    next
      case (Some j)
      with ih have j: "Suc i \<le> j" "j < Suc i + length rest" by simp_all
      then have d: "j - i = Suc (j - Suc i)" by arith
      from j have u: "[i..<j] = i # [Suc i..<j]" by (simp add: upt_conv_Cons)
      from Some ih ran j show ?thesis
        by (simp add: runs_append d u del: upt_Suc)
    qed
  qed
qed

lemma wait_paused_no_pause:
  "s \<noteq> QueueStatusPaused \<Longrightarrow> wait_paused s ([] # sch) = Some (True, s, sch)"
  by (cases sch) simp_all

lemma pending_not_terminal: "pending item \<Longrightarrow> \<not> terminal item"
  by (simp add: pending_def terminal_def)

lemma filter_terminal_all: "list_all terminal xs \<Longrightarrow> filter terminal xs = xs"
  by (induction xs) simp_all

lemma filter_terminal_pending: "list_all pending xs \<Longrightarrow> filter terminal xs = []"
  by (induction xs) (simp_all add: pending_not_terminal)

lemma list_all_drop: "list_all P xs \<Longrightarrow> list_all P (drop k xs)"
  by (simp add: list_all_iff) (meson in_set_dropD)

lemma Execute_idle_cases:
  assumes "CompressQueue_Execute exec cq sch = Some (cq1, ex, evs)"
    and "status cq = QueueStatusIdle"
  obtains s evs0 where
    "run_items exec cq 0 (items cq) QueueStatusRunning sch = Some (ex, items cq1, s, evs0)"
    "status cq1 = QueueStatusIdle"
    "evs = evs0 @ (if OnQueueComplete cq \<and> (\<forall>k. ex \<noteq> Returned k) then [EvQueueComplete]
                   else [])"
    "OnQueueComplete cq1 = OnQueueComplete cq"
proof -
  from assms obtain items1 s evs0 where
    r: "run_items exec cq 0 (items cq) QueueStatusRunning sch = Some (ex, items1, s, evs0)"
    by (auto simp add: CompressQueue_Execute_def split: option.splits run_exit.splits)
  with assms have "cq1 = cq\<lparr>items := items1, status := QueueStatusIdle\<rparr>"
    and "evs = evs0 @ (if OnQueueComplete cq \<and> (\<forall>k. ex \<noteq> Returned k) then [EvQueueComplete]
                   else [])"
    by (auto simp add: CompressQueue_Execute_def split: run_exit.splits)
  with r that show thesis by simp
qed

text \<open>
  A stop that lands while the item of index \<open>k - 1\<close> runs, and no other call: two loads
  of the status word for each item that runs, then the load that sees the stop. The run
  returns, by the \<^verbatim>\<open>break\<close> before the item of index \<open>k\<close>.
\<close>

lemma run_items_stop_after:
  "k < length its \<Longrightarrow>
     \<exists>its1 evs. run_items exec cq i its QueueStatusRunning (replicate (2 * k) [] @ [[CallStop]]) =
        Some (Broke (i + k), its1, QueueStatusStopped, evs)"
proof (induction k arbitrary: i its)
  case 0
  then obtain item rest where "its = item # rest" by (cases its) auto
  then show ?case by (simp add: Stop_def)
next
  case (Suc k)
  then obtain item rest where its: "its = item # rest" and k: "k < length rest"
    by (cases its) auto
  from Suc.IH[OF k, of "Suc i"] obtain its1 evs where
    "run_items exec cq (Suc i) rest QueueStatusRunning (replicate (2 * k) [] @ [[CallStop]]) =
        Some (Broke (Suc i + k), its1, QueueStatusStopped, evs)" by blast
  with its show ?case
    by (simp add: wait_paused_no_pause Let_def)
qed

lemma Execute_stop_after:
  assumes "status cq = QueueStatusIdle" "k < length (items cq)"
  shows "\<exists>cq1 evs. CompressQueue_Execute exec cq (replicate (2 * k) [] @ [[CallStop]]) =
           Some (cq1, Broke k, evs)"
proof -
  from run_items_stop_after[OF assms(2), of exec cq 0] obtain its1 evs where
    "run_items exec cq 0 (items cq) QueueStatusRunning (replicate (2 * k) [] @ [[CallStop]]) =
        Some (Broke k, its1, QueueStatusStopped, evs)" by auto
  with assms(1) show ?thesis by (simp add: CompressQueue_Execute_def)
qed

lemma foldl_ctl_no_pause:
  "s \<noteq> QueueStatusPaused \<Longrightarrow> CallPause \<notin> set calls \<Longrightarrow>
     foldl ctl_apply s calls \<noteq> QueueStatusPaused"
proof (induction calls arbitrary: s)
  case Nil
  then show ?case by simp
next
  case (Cons c calls)
  then have "ctl_apply s c \<noteq> QueueStatusPaused"
    by (cases c) (simp_all add: Stop_def Resume_def)
  with Cons show ?case by simp
qed

lemma GetStatus_no_pause:
  assumes "s \<noteq> QueueStatusPaused" "no_pause sch" "GetStatus s sch = (s1, sch1)"
  shows "s1 \<noteq> QueueStatusPaused \<and> no_pause sch1"
  using assms by (cases sch) (auto simp add: no_pause_def foldl_ctl_no_pause)

lemma wait_paused_not_paused:
  assumes "s \<noteq> QueueStatusPaused" "no_pause sch"
  shows "\<exists>s1 sch1. wait_paused s sch = Some (True, s1, sch1) \<and> s1 \<noteq> QueueStatusPaused \<and>
           no_pause sch1"
proof (cases sch)
  case Nil
  with assms show ?thesis by simp
next
  case (Cons calls sch')
  obtain s1 sch1 where g: "GetStatus s sch = (s1, sch1)" by (cases "GetStatus s sch")
  from GetStatus_no_pause[OF assms g] have n: "s1 \<noteq> QueueStatusPaused" "no_pause sch1"
    by simp_all
  with g Cons show ?thesis by (cases sch') auto
qed

lemma run_items_returns:
  "s \<noteq> QueueStatusPaused \<Longrightarrow> no_pause sch \<Longrightarrow> run_items exec cq i its s sch \<noteq> None"
proof (induction its arbitrary: i s sch)
  case Nil
  then show ?case by simp
next
  case (Cons item rest)
  obtain s1 sch1 where g: "GetStatus s sch = (s1, sch1)" by (cases "GetStatus s sch")
  from GetStatus_no_pause[OF Cons.prems g] have n: "s1 \<noteq> QueueStatusPaused" "no_pause sch1"
    by simp_all
  from wait_paused_not_paused[OF n] obtain s2 sch2 where
    w: "wait_paused s1 sch1 = Some (True, s2, sch2)" and
    n2: "s2 \<noteq> QueueStatusPaused" "no_pause sch2" by blast
  from Cons.IH[OF n2, of "Suc i"] obtain r where
    "run_items exec cq (Suc i) rest s2 sch2 = Some r" by auto
  with g w show ?case by (cases r) (simp add: Let_def)
qed

lemma Execute_returns:
  "no_pause sch \<Longrightarrow> CompressQueue_Execute exec cq sch \<noteq> None"
  using run_items_returns[of QueueStatusRunning sch exec cq 0 "items cq"]
  by (auto simp add: CompressQueue_Execute_def split: option.splits run_exit.splits)

lemma QueueComplete_count:
  assumes "CompressQueue_Execute exec cq sch = Some (cq1, ex, evs)"
  shows "count_list evs EvQueueComplete =
           (if OnQueueComplete cq \<and> (ex = Finished \<or> (\<exists>k. ex = Broke k)) then 1 else 0)"
proof (cases "status cq = QueueStatusIdle")
  case False
  with assms show ?thesis by (simp add: CompressQueue_Execute_def)
next
  case True
  from assms True obtain s evs0 where
    r: "run_items exec cq 0 (items cq) QueueStatusRunning sch = Some (ex, items cq1, s, evs0)"
    and e: "evs = evs0 @ (if OnQueueComplete cq \<and> (\<forall>k. ex \<noteq> Returned k)
                          then [EvQueueComplete] else [])"
    by (rule Execute_idle_cases)
  from run_items_shape[OF r] have n: "EvQueueComplete \<notin> set evs0" and x: "ex \<noteq> Rejected"
    by simp_all
  from n have "count_list evs0 EvQueueComplete = 0" by (simp add: count_list_0_iff)
  with e x show ?thesis by (cases ex) auto
qed

section \<open>Properties of CompressQueue\<close>

text \<open>
  C3. When a run is ended by a stop before the item of index \<open>k\<close>, that is after \<open>k\<close>
  items have completed: \<open>k\<close> is less than the number of items, the first \<open>k\<close> items have
  a terminal status, the items from index \<open>k\<close> on are untouched, and the items that ran
  are those of index \<open>0\<close> to \<open>k - 1\<close>, one after the other in this order. So when the
  untouched items were pending, as \<open>AddTask\<close> makes them, they are still pending and
  \<open>GetResults\<close> shows exactly \<open>k\<close> items with a terminal status.
\<close>

theorem C3_stop_leaves_rest_pending:
  assumes "CompressQueue_Execute exec cq sch = Some (cq1, ex, evs)"
    and "stopped_at ex = Some k"
  shows "k < length (items cq) \<and>
         length (GetResults cq1) = length (items cq) \<and>
         list_all terminal (take k (GetResults cq1)) \<and>
         drop k (GetResults cq1) = drop k (items cq) \<and>
         runs evs = [0..<k] \<and>
         (list_all pending (drop k (items cq)) \<longrightarrow>
            list_all pending (drop k (GetResults cq1)) \<and>
            length (filter terminal (GetResults cq1)) = k)"
proof -
  have idle: "status cq = QueueStatusIdle"
  proof (rule ccontr)
    assume "status cq \<noteq> QueueStatusIdle"
    with assms(1) have "ex = Rejected" by (simp add: CompressQueue_Execute_def)
    with assms(2) show False by simp
  qed
  from assms(1) idle obtain s evs0 where
    r: "run_items exec cq 0 (items cq) QueueStatusRunning sch = Some (ex, items cq1, s, evs0)"
    and e: "evs = evs0 @ (if OnQueueComplete cq \<and> (\<forall>k. ex \<noteq> Returned k)
                          then [EvQueueComplete] else [])"
    by (rule Execute_idle_cases)
  from run_items_shape[OF r] assms(2) have
    k: "k < length (items cq)" and len: "length (items cq1) = length (items cq)" and
    t: "list_all terminal (take k (items cq1))" and
    d: "drop k (items cq1) = drop k (items cq)" and
    ru: "runs evs0 = [0..<k]"
    by simp_all
  from e ru have ru1: "runs evs = [0..<k]" by (simp add: runs_append)
  have "length (filter terminal (items cq1)) = k"
    if p: "list_all pending (drop k (items cq1))"
  proof -
    have "filter terminal (items cq1) =
          filter terminal (take k (items cq1)) @ filter terminal (drop k (items cq1))"
      by (metis append_take_drop_id filter_append)
    with t p have "filter terminal (items cq1) = take k (items cq1)"
      by (simp add: filter_terminal_all filter_terminal_pending)
    with k len show ?thesis by simp
  qed
  with k len t d ru1 show ?thesis by (simp add: GetResults_def)
qed

theorem C3_stop_after_two_witness:
  "list_all pending (items queue5) \<and>
   (\<exists>cq1 evs. CompressQueue_Execute exec5 queue5 stop_after_two = Some (cq1, Broke 2, evs) \<and>
      map Status (GetResults cq1) =
        [''completed'', ''failed'', ''pending'', ''pending'', ''pending''] \<and>
      length (filter terminal (GetResults cq1)) = 2 \<and>
      list_all pending (drop 2 (GetResults cq1)) \<and>
      runs evs = [0, 1])"
proof -
  have p: "list_all pending (items queue5)" by code_simp
  have p2: "list_all pending (drop 2 (items queue5))" by code_simp
  have idle: "status queue5 = QueueStatusIdle" by code_simp
  have len: "2 < length (items queue5)" by code_simp
  have sch: "stop_after_two = replicate (2 * 2) [] @ [[CallStop]]"
    by (simp add: stop_after_two_def numeral_eq_Suc)
  from Execute_stop_after[OF idle len, of exec5] sch obtain cq1 evs where
    run: "CompressQueue_Execute exec5 queue5 stop_after_two = Some (cq1, Broke 2, evs)"
    by auto
  have st: "map_option (\<lambda>(cq1, ex, evs). map Status (GetResults cq1))
              (CompressQueue_Execute exec5 queue5 stop_after_two) =
            Some [''completed'', ''failed'', ''pending'', ''pending'', ''pending'']"
    by code_simp
  have s: "stopped_at (Broke 2) = Some 2" by simp
  have u: "[0..<2] = [0, Suc 0]" by (simp add: numeral_eq_Suc)
  note c3 = C3_stop_leaves_rest_pending[OF run s]
  from c3 p2 have f: "length (filter terminal (GetResults cq1)) = 2"
    and d: "list_all pending (drop 2 (GetResults cq1))"
    and r: "runs evs = [0..<2]" by blast+
  from r u have r1: "runs evs = [0, 1]" by simp
  from run st have m: "map Status (GetResults cq1) =
      [''completed'', ''failed'', ''pending'', ''pending'', ''pending'']" by simp
  show ?thesis
  proof (intro conjI exI)
    show "list_all pending (items queue5)" by (rule p)
    show "CompressQueue_Execute exec5 queue5 stop_after_two = Some (cq1, Broke 2, evs)"
      by (rule run)
    show "map Status (GetResults cq1) =
      [''completed'', ''failed'', ''pending'', ''pending'', ''pending'']" by (rule m)
    show "length (filter terminal (GetResults cq1)) = 2" by (rule f)
    show "list_all pending (drop 2 (GetResults cq1))" by (rule d)
    show "runs evs = [0, 1]" by (rule r1)
  qed
qed

text \<open>
  C4. \<open>Execute\<close> on a queue that is not idle returns at once, the queue unchanged and no
  callback called. A run that starts from idle and returns, through whichever of its three
  exits, leaves the status idle, so that the next \<open>Execute\<close> is not rejected.
\<close>

theorem C4_execute_from_idle_back_to_idle:
  "(status cq \<noteq> QueueStatusIdle \<longrightarrow>
      CompressQueue_Execute exec cq sch = Some (cq, Rejected, [])) \<and>
   (status cq = QueueStatusIdle \<longrightarrow>
      (\<forall>cq1 ex evs. CompressQueue_Execute exec cq sch = Some (cq1, ex, evs) \<longrightarrow>
         (ex = Finished \<or> (\<exists>k. ex = Broke k) \<or> (\<exists>k. ex = Returned k)) \<and>
         status cq1 = QueueStatusIdle \<and>
         (\<forall>sch1 cq2 ex2 evs2.
            CompressQueue_Execute exec cq1 sch1 = Some (cq2, ex2, evs2) \<longrightarrow> ex2 \<noteq> Rejected)))"
proof (intro conjI impI allI)
  assume "status cq \<noteq> QueueStatusIdle"
  then show "CompressQueue_Execute exec cq sch = Some (cq, Rejected, [])"
    by (simp add: CompressQueue_Execute_def)
next
  fix cq1 ex evs
  assume idle: "status cq = QueueStatusIdle"
    and run: "CompressQueue_Execute exec cq sch = Some (cq1, ex, evs)"
  from run idle obtain s evs0 where
    r: "run_items exec cq 0 (items cq) QueueStatusRunning sch = Some (ex, items cq1, s, evs0)"
    and i1: "status cq1 = QueueStatusIdle"
    by (rule Execute_idle_cases)
  from run_items_shape[OF r] have "ex \<noteq> Rejected" by simp
  then show "ex = Finished \<or> (\<exists>k. ex = Broke k) \<or> (\<exists>k. ex = Returned k)"
    by (cases ex) simp_all
  show "status cq1 = QueueStatusIdle" by (rule i1)
  fix sch1 cq2 ex2 evs2
  assume run2: "CompressQueue_Execute exec cq1 sch1 = Some (cq2, ex2, evs2)"
  from run2 i1 obtain s2 evs3 where
    "run_items exec cq1 0 (items cq1) QueueStatusRunning sch1 = Some (ex2, items cq2, s2, evs3)"
    by (rule Execute_idle_cases)
  from run_items_shape[OF this] show "ex2 \<noteq> Rejected" by simp
qed

theorem C4_three_exits_witness:
  "status queue5 = QueueStatusIdle \<and>
   (\<exists>cq1 evs. CompressQueue_Execute exec5 queue5 [] = Some (cq1, Finished, evs) \<and>
      status cq1 = QueueStatusIdle) \<and>
   (\<exists>cq1 evs. CompressQueue_Execute exec5 queue5 stop_after_two = Some (cq1, Broke 2, evs) \<and>
      status cq1 = QueueStatusIdle) \<and>
   (\<exists>cq1 evs. CompressQueue_Execute exec5 queue5 stop_while_paused = Some (cq1, Returned 0, evs) \<and>
      status cq1 = QueueStatusIdle) \<and>
   CompressQueue_Execute exec5 (queue5\<lparr>status := QueueStatusRunning\<rparr>) [] =
     Some (queue5\<lparr>status := QueueStatusRunning\<rparr>, Rejected, [])"
proof -
  have idle: "status queue5 = QueueStatusIdle" by code_simp
  have busy: "status (queue5\<lparr>status := QueueStatusRunning\<rparr>) \<noteq> QueueStatusIdle" by simp
  have e1: "map_option (\<lambda>(cq1, ex, evs). ex) (CompressQueue_Execute exec5 queue5 []) =
      Some Finished" by code_simp
  have e2: "map_option (\<lambda>(cq1, ex, evs). ex) (CompressQueue_Execute exec5 queue5 stop_after_two) =
      Some (Broke 2)" by code_simp
  have e3: "map_option (\<lambda>(cq1, ex, evs). ex)
      (CompressQueue_Execute exec5 queue5 stop_while_paused) = Some (Returned 0)" by code_simp
  from e1 obtain cq1 evs1 where
    r1: "CompressQueue_Execute exec5 queue5 [] = Some (cq1, Finished, evs1)" by auto
  from e2 obtain cq2 evs2 where
    r2: "CompressQueue_Execute exec5 queue5 stop_after_two = Some (cq2, Broke 2, evs2)" by auto
  from e3 obtain cq3 evs3 where
    r3: "CompressQueue_Execute exec5 queue5 stop_while_paused = Some (cq3, Returned 0, evs3)"
    by auto
  from C4_execute_from_idle_back_to_idle[of queue5 exec5 "[]"] idle r1
  have s1: "status cq1 = QueueStatusIdle" by blast
  from C4_execute_from_idle_back_to_idle[of queue5 exec5 stop_after_two] idle r2
  have s2: "status cq2 = QueueStatusIdle" by blast
  from C4_execute_from_idle_back_to_idle[of queue5 exec5 stop_while_paused] idle r3
  have s3: "status cq3 = QueueStatusIdle" by blast
  from C4_execute_from_idle_back_to_idle[of "queue5\<lparr>status := QueueStatusRunning\<rparr>" exec5 "[]"]
    busy
  have rej: "CompressQueue_Execute exec5 (queue5\<lparr>status := QueueStatusRunning\<rparr>) [] =
     Some (queue5\<lparr>status := QueueStatusRunning\<rparr>, Rejected, [])" by blast
  show ?thesis
  proof (intro conjI)
    show "status queue5 = QueueStatusIdle" by (rule idle)
    show "\<exists>cq1 evs. CompressQueue_Execute exec5 queue5 [] = Some (cq1, Finished, evs) \<and>
      status cq1 = QueueStatusIdle" using r1 s1 by blast
    show "\<exists>cq1 evs. CompressQueue_Execute exec5 queue5 stop_after_two =
        Some (cq1, Broke 2, evs) \<and> status cq1 = QueueStatusIdle" using r2 s2 by blast
    show "\<exists>cq1 evs. CompressQueue_Execute exec5 queue5 stop_while_paused =
        Some (cq1, Returned 0, evs) \<and> status cq1 = QueueStatusIdle" using r3 s3 by blast
    show "CompressQueue_Execute exec5 (queue5\<lparr>status := QueueStatusRunning\<rparr>) [] =
     Some (queue5\<lparr>status := QueueStatusRunning\<rparr>, Rejected, [])" by (rule rej)
  qed
qed

text \<open>
  C1. On the five-item queue with all hooks set, a stop that lands while the second item
  runs is seen at the next item boundary: the loop breaks, three items stay pending, and
  \<^verbatim>\<open>OnQueueComplete\<close> is called all the same, as the last event of the run. A stop seen
  from inside the pause loop returns at once and does not call it.
\<close>

theorem C1_queue_complete_fires_on_break:
  "map_option (\<lambda>(cq1, ex, evs). (map Status (items cq1), ex, evs))
     (CompressQueue_Execute exec5 queue5 stop_after_two) =
   Some ([''completed'', ''failed'', ''pending'', ''pending'', ''pending''], Broke 2,
         [EvTaskStart 0, EvTaskRun 0, EvTaskComplete 0,
          EvTaskStart 1, EvTaskRun 1, EvTaskComplete 1, EvQueueComplete]) \<and>
   map_option (\<lambda>(cq1, ex, evs). (map Status (items cq1), ex, evs))
     (CompressQueue_Execute exec5 queue5 stop_while_paused) =
   Some ([''pending'', ''pending'', ''pending'', ''pending'', ''pending''], Returned 0, [])"
  by code_simp

lemma simple_name_neq_unique:
  "GenerateSimpleZipName w sourcePath \<noteq> GenerateUniqueZipName w sourcePath"
  by (simp add: GenerateSimpleZipName_def GenerateUniqueZipName_def Let_def)

text \<open>
  C10. When \<open>AddTask\<close> is called with an empty target path and succeeds, the name it makes
  absolute and gives to the new task is the simple name if the queue holds exactly one
  item at the time of the call, and the timestamped name otherwise; the two names are
  never equal. In particular the first task added to an empty queue gets the timestamped
  name.
\<close>

theorem C10_default_name_choice:
  assumes "AddTask w cq sourcePath [] opts = Inr cq1"
  shows "items cq1 = items cq @ [last (items cq1)] \<and>
         Status (last (items cq1)) = ''pending'' \<and>
         path_Abs w (if length (items cq) = 1 then GenerateSimpleZipName w sourcePath
                     else GenerateUniqueZipName w sourcePath) =
           Inr (TargetZipPath (Task (last (items cq1)))) \<and>
         GenerateSimpleZipName w sourcePath \<noteq> GenerateUniqueZipName w sourcePath \<and>
         (items cq = [] \<longrightarrow>
            path_Abs w (GenerateUniqueZipName w sourcePath) =
              Inr (TargetZipPath (Task (last (items cq1)))))"
proof -
  let ?name = "if length (items cq) = 1 then GenerateSimpleZipName w sourcePath
               else GenerateUniqueZipName w sourcePath"
  from assms obtain absSource absTarget where
    t: "path_Abs w ?name = Inr absTarget" and
    q: "cq1 = cq\<lparr>items := items cq @
          [\<lparr>Task = NewCompressTask absSource absTarget opts, Result = None,
            Status = ''pending'', RetryCount = 0\<rparr>]\<rparr>"
    by (auto simp add: AddTask_def Let_def split: sum.splits if_splits)
  from q have l: "TargetZipPath (Task (last (items cq1))) = absTarget"
    by (simp add: NewCompressTask_def Let_def)
  from q have "items cq1 = items cq @ [last (items cq1)]"
    and "Status (last (items cq1)) = ''pending''" by simp_all
  moreover from t l have "path_Abs w ?name = Inr (TargetZipPath (Task (last (items cq1))))"
    by simp
  moreover from this have "items cq = [] \<longrightarrow>
            path_Abs w (GenerateUniqueZipName w sourcePath) =
              Inr (TargetZipPath (Task (last (items cq1))))" by auto
  ultimately show ?thesis using simple_name_neq_unique by blast
qed

theorem C10_default_name_witness:
  "AddTask w2 queue0 ''/data/d'' [] None = Inr queue1 \<and>
   AddTask w2 queue1 ''/data/d'' [] None = Inr queue2 \<and>
   AddTask w2 queue2 ''/data/d'' [] None = Inr queue3 \<and>
   GenerateSimpleZipName w2 ''/data/d'' = ''d.zip'' \<and>
   GenerateUniqueZipName w2 ''/data/d'' = ''d_20240102_030405.zip'' \<and>
   path_Abs w2 (GenerateUniqueZipName w2 ''/data/d'') =
     Inr (TargetZipPath (Task (last (items queue1)))) \<and>
   path_Abs w2 (GenerateSimpleZipName w2 ''/data/d'') =
     Inr (TargetZipPath (Task (last (items queue2)))) \<and>
   path_Abs w2 (GenerateUniqueZipName w2 ''/data/d'') =
     Inr (TargetZipPath (Task (last (items queue3))))"
proof -
  have a0: "AddTask w2 queue0 ''/data/d'' [] None = Inr queue1" by code_simp
  have a1: "AddTask w2 queue1 ''/data/d'' [] None = Inr queue2" by code_simp
  have a2: "AddTask w2 queue2 ''/data/d'' [] None = Inr queue3" by code_simp
  have l0: "length (items queue0) = 0" by code_simp
  have l1: "length (items queue1) = 1" by code_simp
  have l2: "length (items queue2) = 2" by code_simp
  have s: "GenerateSimpleZipName w2 ''/data/d'' = ''d.zip''" by code_simp
  have u: "GenerateUniqueZipName w2 ''/data/d'' = ''d_20240102_030405.zip''" by code_simp
  from C10_default_name_choice[OF a0] l0
  have c0: "path_Abs w2 (GenerateUniqueZipName w2 ''/data/d'') =
     Inr (TargetZipPath (Task (last (items queue1))))" by simp
  from C10_default_name_choice[OF a1] l1
  have c1: "path_Abs w2 (GenerateSimpleZipName w2 ''/data/d'') =
     Inr (TargetZipPath (Task (last (items queue2))))" by simp
  from C10_default_name_choice[OF a2] l2
  have c2: "path_Abs w2 (GenerateUniqueZipName w2 ''/data/d'') =
     Inr (TargetZipPath (Task (last (items queue3))))" by simp
  show ?thesis
    by (intro conjI) (rule a0 a1 a2 s u c0 c1 c2)+
qed

section \<open>Properties of Run\<close>

lemma Execute_failed_has_error:
  assumes "\<not> Success (x_result (Execute w op ct))"
  shows "\<exists>e. Error (x_result (Execute w op ct)) = Some e"
proof (cases rule: Execute_cases[of w ct op])
  case (success re me cs ct1 zs)
  with assms show ?thesis by (simp add: result0_def)
qed simp_all

text \<open>
  C8. When the compression of a unit fails, \<open>Run\<close> returns a result that is not a success
  and asks for no retry, with the compression error as its error and in its message; the
  shared statistic is unchanged and \<open>upload\<close> is not called. When the compression succeeds,
  the three totals of its result are added to the statistic, if one is attached, exactly
  once and before \<open>upload\<close> is called; whatever follows the upload is cleanup.
\<close>

theorem C8_compression_failure_and_statistics:
  assumes "Run w env cutu statistic = (res, cutu1, statistic1, evs)"
  shows "(\<not> Success (compression_of w cutu) \<longrightarrow>
            \<not> NeedRetry res \<and> \<not> Succeed res \<and>
            (\<exists>e. Error (compression_of w cutu) = Some e \<and> Err res = Some (CompressError e) \<and>
                 ResultMessage res = CompressFailedMsg (Some e)) \<and>
            statistic1 = statistic \<and>
            evs = [DidCompress (u_SourcePath cutu) (u_TargetZipPath cutu)]) \<and>
         (Success (compression_of w cutu) \<longrightarrow>
            (case statistic of
               None \<Rightarrow>
                 statistic1 = None \<and>
                 (\<exists>rest. evs = [DidCompress (u_SourcePath cutu) (u_TargetZipPath cutu),
                                DidUpload (request_of cutu)] @ rest \<and> list_all is_cleanup rest)
             | Some cs \<Rightarrow>
                 statistic1 =
                   Some (cs\<lparr>totalSize := totalSize cs + r_TotalSize (compression_of w cutu),
                            compressedSize :=
                              compressedSize cs + r_CompressedSize (compression_of w cutu),
                            fileCount := fileCount cs + r_TotalFiles (compression_of w cutu)\<rparr>) \<and>
                 (\<exists>rest. evs = [DidCompress (u_SourcePath cutu) (u_TargetZipPath cutu),
                                DidAddStatistic (r_TotalSize (compression_of w cutu))
                                  (r_CompressedSize (compression_of w cutu))
                                  (r_TotalFiles (compression_of w cutu)),
                                DidUpload (request_of cutu)] @ rest \<and> list_all is_cleanup rest)))"
proof (intro conjI impI)
  assume f: "\<not> Success (compression_of w cutu)"
  then obtain e where e: "Error (compression_of w cutu) = Some e"
    using Execute_failed_has_error unfolding compression_of_def by blast
  from assms f have r: "res = \<lparr>Succeed = False, NeedRetry = False,
        Err = map_option CompressError (Error (compression_of w cutu)),
        ResultMessage = CompressFailedMsg (Error (compression_of w cutu)), Extra = None\<rparr>"
    and s: "statistic1 = statistic"
    and v: "evs = [DidCompress (u_SourcePath cutu) (u_TargetZipPath cutu)]"
    by (simp_all add: Run_def compression_of_def Let_def)
  from r e show "\<not> NeedRetry res" "\<not> Succeed res"
    "\<exists>e. Error (compression_of w cutu) = Some e \<and> Err res = Some (CompressError e) \<and>
         ResultMessage res = CompressFailedMsg (Some e)" by simp_all
  from s show "statistic1 = statistic" .
  from v show "evs = [DidCompress (u_SourcePath cutu) (u_TargetZipPath cutu)]" .
next
  assume ok: "Success (compression_of w cutu)"
  show "case statistic of
          None \<Rightarrow>
            statistic1 = None \<and>
            (\<exists>rest. evs = [DidCompress (u_SourcePath cutu) (u_TargetZipPath cutu),
                           DidUpload (request_of cutu)] @ rest \<and> list_all is_cleanup rest)
        | Some cs \<Rightarrow>
            statistic1 =
              Some (cs\<lparr>totalSize := totalSize cs + r_TotalSize (compression_of w cutu),
                       compressedSize :=
                         compressedSize cs + r_CompressedSize (compression_of w cutu),
                       fileCount := fileCount cs + r_TotalFiles (compression_of w cutu)\<rparr>) \<and>
            (\<exists>rest. evs = [DidCompress (u_SourcePath cutu) (u_TargetZipPath cutu),
                           DidAddStatistic (r_TotalSize (compression_of w cutu))
                             (r_CompressedSize (compression_of w cutu))
                             (r_TotalFiles (compression_of w cutu)),
                           DidUpload (request_of cutu)] @ rest \<and> list_all is_cleanup rest)"
    using assms ok
    by (auto simp add: Run_def compression_of_def request_of_def Let_def AddTotalSize_def
          AddCompressedSize_def AddFileCount_def split: option.splits)
qed

theorem C8_run_witness:
  "\<not> Success (compression_of w7 unit8) \<and>
   (\<exists>res cutu1. Run w7 env8 unit8 (Some statistic0) =
        (res, cutu1, Some statistic0, [DidCompress ''/data/d'' ''/data/d.zip'']) \<and>
      \<not> NeedRetry res \<and> Err res = Some (CompressError ErrEmptyDirectory) \<and>
      ResultMessage res = CompressFailedMsg (Some ErrEmptyDirectory)) \<and>
   Success (compression_of w2 unit8) \<and>
   (\<exists>res cutu1. Run w2 env8 unit8 (Some statistic0) =
        (res, cutu1, Some \<lparr>totalSize = 60, compressedSize = 60, fileCount = 3\<rparr>,
         [DidCompress ''/data/d'' ''/data/d.zip'', DidAddStatistic 60 60 3,
          DidUpload (request_of unit8), DidRemove ''/data/d.zip'']))"
proof -
  have f: "\<not> Success (compression_of w7 unit8)" by code_simp
  have fe: "Error (compression_of w7 unit8) = Some ErrEmptyDirectory" by code_simp
  have ok: "Success (compression_of w2 unit8)" by code_simp
  have tot: "r_TotalSize (compression_of w2 unit8) = 60"
    "r_CompressedSize (compression_of w2 unit8) = 60"
    "r_TotalFiles (compression_of w2 unit8) = 3" by code_simp+
  have src: "u_SourcePath unit8 = ''/data/d''" "u_TargetZipPath unit8 = ''/data/d.zip''"
    by (simp_all add: unit8_def)
  have ev: "(case Run w2 env8 unit8 (Some statistic0) of (res, cutu1, st, evs) \<Rightarrow> evs) =
      [DidCompress ''/data/d'' ''/data/d.zip'', DidAddStatistic 60 60 3,
       DidUpload (request_of unit8), DidRemove ''/data/d.zip'']" by code_simp
  obtain res7 cutu7 st7 evs7 where
    r7: "Run w7 env8 unit8 (Some statistic0) = (res7, cutu7, st7, evs7)"
    by (cases "Run w7 env8 unit8 (Some statistic0)")
  obtain res2 cutu2 st2 evs2 where
    r2: "Run w2 env8 unit8 (Some statistic0) = (res2, cutu2, st2, evs2)"
    by (cases "Run w2 env8 unit8 (Some statistic0)")
  from C8_compression_failure_and_statistics[OF r7] f fe src
  have a: "\<not> NeedRetry res7" "Err res7 = Some (CompressError ErrEmptyDirectory)"
    "ResultMessage res7 = CompressFailedMsg (Some ErrEmptyDirectory)"
    "st7 = Some statistic0" "evs7 = [DidCompress ''/data/d'' ''/data/d.zip'']"
    by simp_all
  from C8_compression_failure_and_statistics[OF r2] ok tot
  have b: "st2 = Some \<lparr>totalSize = 60, compressedSize = 60, fileCount = 3\<rparr>"
    by (simp add: statistic0_def)
  from ev r2 have c: "evs2 = [DidCompress ''/data/d'' ''/data/d.zip'', DidAddStatistic 60 60 3,
       DidUpload (request_of unit8), DidRemove ''/data/d.zip'']" by simp
  show ?thesis
  proof (intro conjI)
    show "\<not> Success (compression_of w7 unit8)" by (rule f)
    show "Success (compression_of w2 unit8)" by (rule ok)
    show "\<exists>res cutu1. Run w7 env8 unit8 (Some statistic0) =
        (res, cutu1, Some statistic0, [DidCompress ''/data/d'' ''/data/d.zip'']) \<and>
      \<not> NeedRetry res \<and> Err res = Some (CompressError ErrEmptyDirectory) \<and>
      ResultMessage res = CompressFailedMsg (Some ErrEmptyDirectory)"
      using r7 a by blast
    show "\<exists>res cutu1. Run w2 env8 unit8 (Some statistic0) =
        (res, cutu1, Some \<lparr>totalSize = 60, compressedSize = 60, fileCount = 3\<rparr>,
         [DidCompress ''/data/d'' ''/data/d.zip'', DidAddStatistic 60 60 3,
          DidUpload (request_of unit8), DidRemove ''/data/d.zip''])"
      using r2 b c by blast
  qed
qed

section \<open>Properties of GetSubDirectories\<close>

lemma Count_append: "strings_Count (a @ b) c = strings_Count a c + strings_Count b c"
  by (simp add: strings_Count_def)

lemma Count_plain: "plain_name n \<Longrightarrow> strings_Count n CHR ''/'' = 0"
  by (auto simp add: strings_Count_def plain_name_def filter_empty_conv)

lemma Count_Cons: "strings_Count (x # s) c = (if x = c then 1 else 0) + strings_Count s c"
  by (simp add: strings_Count_def)

lemma Count_sep_join:
  "list_all plain_name p \<Longrightarrow> p \<noteq> [] \<Longrightarrow> Suc (strings_Count (sep_join p) CHR ''/'') = length p"
proof (induction p rule: sep_join.induct)
  case 1
  then show ?case by simp
next
  case (2 n)
  then show ?case by (simp add: Count_plain)
next
  case (3 n m ns)
  then show ?case by (simp add: Count_append Count_plain Count_Cons)
qed

lemma sep_join_not_dot:
  "list_all plain_name p \<Longrightarrow> p \<noteq> [] \<Longrightarrow> sep_join p \<noteq> ''.''"
proof (induction p rule: sep_join.induct)
  case 1
  then show ?case by simp
next
  case (2 n)
  then show ?case by (simp add: plain_name_def)
next
  case (3 n m ns)
  show ?case
  proof
    assume "sep_join (n # m # ns) = ''.''"
    then have "set (sep_join (n # m # ns)) = set ''.''" by (simp only:)
    moreover have "CHR ''/'' \<in> set (sep_join (n # m # ns))" by simp
    ultimately show False by simp
  qed
qed

lemma subdirs_fn_err: "subdirs_fn w parent depth p nd (Some e) dirs = (WErr e, dirs)"
  by (simp add: subdirs_fn_def)

lemma subdirs_fn_file:
  "\<not> IsDir nd \<Longrightarrow> subdirs_fn w parent depth p nd None dirs = (WNil, dirs)"
  by (simp add: subdirs_fn_def)

lemma subdirs_fn_root:
  "subdirs_fn w parent depth [] nd None dirs = (WNil, dirs)"
  by (simp add: subdirs_fn_def walked_Rel_def)

lemma subdirs_fn_dir:
  assumes "IsDir nd" "list_all plain_name p" "p \<noteq> []" "depth \<noteq> 0"
    "depth < 0 \<or> int (length p) \<le> depth + 1"
  shows "subdirs_fn w parent depth p nd None dirs =
           (if lim_at depth (length p) = Some 0 then (SkipDir, dirs)
            else (WNil, dirs @ [walked_path w parent p]))"
proof -
  have c: "int (strings_Count (sep_join p) CHR ''/'') + 1 = int (length p)"
    using Count_sep_join[OF assms(2,3)] by simp
  have r: "walked_Rel p = sep_join p" "sep_join p \<noteq> ''.''"
    using assms(3) sep_join_not_dot[OF assms(2,3)] by (simp_all add: walked_Rel_def)
  from assms(1,4,5) show ?thesis
    unfolding subdirs_fn_def lim_at_def
    by (auto simp add: r c Let_def)
qed

lemma lim_at_Suc: "map_option (\<lambda>n. n - Suc 0) (lim_at depth l) = lim_at depth (Suc l)"
  by (simp add: lim_at_def)

lemma lim_at_exhausted:
  "depth \<noteq> 0 \<Longrightarrow> depth < 0 \<or> int l \<le> depth + 1 \<Longrightarrow>
     lim_at depth l = Some 0 \<longleftrightarrow> (0 < depth \<and> int l = depth + 1)"
  by (auto simp add: lim_at_def)

lemma subdirs_names_step:
  assumes "dirs1 = dirs @ dirs_within join lim (join path name) c"
    and "r = WNil \<and> dirs2 = dirs1 @ dirs_within_names join lim path cs"
  shows "r = WNil \<and> dirs2 = dirs @ dirs_within_names join lim path ((name, c) # cs)"
  using assms by simp

lemma subdirs_walk:
  "walk (subdirs_fn w parent depth) p nd dirs = (r, dirs1) \<Longrightarrow>
     plain nd \<Longrightarrow> list_all plain_name p \<Longrightarrow> p \<noteq> [] \<Longrightarrow> depth \<noteq> 0 \<Longrightarrow>
     depth < 0 \<or> int (length p) \<le> depth + 1 \<Longrightarrow>
     (r = WNil \<or> (r = SkipDir \<and> IsDir nd)) \<and>
     dirs1 = dirs @ dirs_within (path_Join w) (lim_at depth (length p)) (walked_path w parent p) nd"
  "walk_names (subdirs_fn w parent depth) p cs dirs = (r, dirs1) \<Longrightarrow>
     plain_names cs \<Longrightarrow> list_all plain_name p \<Longrightarrow> depth \<noteq> 0 \<Longrightarrow>
     depth < 0 \<or> int (length p) \<le> depth \<Longrightarrow>
     r = WNil \<and>
     dirs1 = dirs @ dirs_within_names (path_Join w) (lim_at depth (Suc (length p)))
                      (walked_path w parent p) cs"
proof (induction "subdirs_fn w parent depth" p nd dirs and "subdirs_fn w parent depth" p cs dirs
       arbitrary: r dirs1 and r dirs1 rule: walk_walk_names.induct)
  case (1 p a s)
  then show ?case by (simp add: subdirs_fn_file)
next
  case (2 p d e s)
  then show ?case by simp
next
  case (3 p re me cs s)
  note prems = "3.prems"
  from prems(2) have re: "re = None" and pc: "plain_names cs" by simp_all
  note fd = subdirs_fn_dir[of "Dir re me cs" p depth w parent s, OF _ prems(3,4,5,6)]
  show ?case
  proof (cases "lim_at depth (length p) = Some 0")
    case True
    with fd prems(1) re show ?thesis by simp
  next
    case False
    with fd have f: "subdirs_fn w parent depth p (Dir re me cs) None s =
        (WNil, s @ [walked_path w parent p])" by simp
    with prems(1) re have w: "walk_names (subdirs_fn w parent depth) p cs
        (s @ [walked_path w parent p]) = (r, dirs1)" by simp
    from False lim_at_exhausted[OF prems(5,6)] prems(5,6)
    have le: "depth < 0 \<or> int (length p) \<le> depth" by auto
    have "r = WNil \<and> dirs1 = (s @ [walked_path w parent p]) @
        dirs_within_names (path_Join w) (lim_at depth (Suc (length p))) (walked_path w parent p) cs"
      using "3.hyps"[of WNil "s @ [walked_path w parent p]" r dirs1] f re w pc prems(3,5) le
      by simp
    with False show ?thesis by (simp add: lim_at_Suc)
  qed
next
  case (4 p s)
  then show ?case by simp
next
  case (5 p name c cs s)
  note prems = "5.prems"
  from prems(2) have pn: "plain_name name" and pc: "plain c" and pcs: "plain_names cs"
    by simp_all
  from pn prems(3) have pp: "list_all plain_name (p @ [name])" by simp
  from prems(5) have le1: "depth < 0 \<or> int (length (p @ [name])) \<le> depth + 1" by auto
  show ?case
  proof (cases c)
    case (NoStat d e)
    with pc show ?thesis by simp
  next
    case (File a)
    have w1: "walk (subdirs_fn w parent depth) (p @ [name]) c s = (WNil, s)"
      using File by (simp add: subdirs_fn_file)
    from prems(1) File w1 have w2: "walk_names (subdirs_fn w parent depth) p cs s = (r, dirs1)"
      by simp
    have "r = WNil \<and> dirs1 = s @ dirs_within_names (path_Join w) (lim_at depth (Suc (length p)))
                      (walked_path w parent p) cs"
      using "5.hyps"(2)[OF File w1[symmetric] _ w2 pcs prems(3,4,5)] by simp
    with File show ?thesis by simp
  next
    case (Dir re me cs')
    obtain err s1 where w1: "walk (subdirs_fn w parent depth) (p @ [name]) c s = (err, s1)"
      by (cases "walk (subdirs_fn w parent depth) (p @ [name]) c s")
    from "5.hyps"(3)[OF Dir w1 pc pp _ prems(4) le1]
    have ok: "err = WNil \<or> (IsDir c \<and> err = SkipDir)"
      and d1: "s1 = s @ dirs_within (path_Join w) (lim_at depth (Suc (length p)))
                 (path_Join w (walked_path w parent p) name) c"
      by (auto simp add: walked_path_snoc)
    from prems(1) Dir w1 ok have w2: "walk_names (subdirs_fn w parent depth) p cs s1 = (r, dirs1)"
      by auto
    have "r = WNil \<and> dirs1 = s1 @ dirs_within_names (path_Join w) (lim_at depth (Suc (length p)))
                      (walked_path w parent p) cs"
      using "5.hyps"(4)[OF Dir w1[symmetric] ok w2 pcs prems(3,4,5)] by simp
    with d1 show ?thesis using subdirs_names_step by blast
  qed
qed

lemma dirs_within_zero: "dirs_within join (Some 0) path c = []"
  by (cases c) simp_all

lemma dirs_within_names_zero: "dirs_within_names join (Some 0) path cs = []"
  by (induction cs) (auto simp add: dirs_within_zero)

lemma child_dirs_within:
  "plain_names cs \<Longrightarrow> child_dirs join path cs = dirs_within_names join (Some 1) path cs"
proof (induction cs)
  case Nil
  then show ?case by (simp add: child_dirs_def)
next
  case (Cons x cs)
  obtain name c where x: "x = (name, c)" by (cases x)
  from Cons x show ?case
    by (cases c) (auto simp add: child_dirs_def dirs_within_names_zero)
qed

text \<open>
  C9. For a parent that is a directory, \<open>GetSubDirectories\<close> returns the parent alone
  for depth 0, and, when the parent can be read, its immediate child directories for depth
  1. When the whole tree below the parent can be read, it returns without error, for a
  negative depth every directory below the parent, and for a depth above 1 the directories
  at most that many levels below it, deeper subtrees pruned; depth 1 agrees with that
  rule. The parent itself is in the list only for depth 0.
\<close>

theorem C9_GetSubDirectories_by_depth:
  assumes "fs_lookup w parentPath = Dir re me cs"
  shows "GetSubDirectories w parentPath 0 = ([parentPath], None) \<and>
         (re = None \<longrightarrow>
            GetSubDirectories w parentPath 1 = (child_dirs (path_Join w) parentPath cs, None)) \<and>
         (plain (Dir re me cs) \<longrightarrow>
            GetSubDirectories w parentPath depth =
              (if depth = 0 then [parentPath]
               else if depth = 1 then child_dirs (path_Join w) parentPath cs
               else if depth < 0 then dirs_within_names (path_Join w) None parentPath cs
               else dirs_within_names (path_Join w) (Some (nat depth)) parentPath cs, None) \<and>
            child_dirs (path_Join w) parentPath cs =
              dirs_within_names (path_Join w) (Some 1) parentPath cs)"
proof (intro conjI impI)
  from assms show d0: "GetSubDirectories w parentPath 0 = ([parentPath], None)"
    by (simp add: GetSubDirectories_def)
  show d1: "GetSubDirectories w parentPath 1 = (child_dirs (path_Join w) parentPath cs, None)"
    if "re = None"
    using assms that by (simp add: GetSubDirectories_def child_dirs_def)
  assume pl: "plain (Dir re me cs)"
  then have re: "re = None" and pc: "plain_names cs" by simp_all
  show "child_dirs (path_Join w) parentPath cs =
           dirs_within_names (path_Join w) (Some 1) parentPath cs"
    by (rule child_dirs_within[OF pc])
  show "GetSubDirectories w parentPath depth =
           (if depth = 0 then [parentPath]
            else if depth = 1 then child_dirs (path_Join w) parentPath cs
            else if depth < 0 then dirs_within_names (path_Join w) None parentPath cs
            else dirs_within_names (path_Join w) (Some (nat depth)) parentPath cs, None)"
  proof (cases "depth = 0 \<or> depth = 1")
    case True
    with d0 d1[OF re] show ?thesis by auto
  next
    case False
    then have d: "depth \<noteq> 0" "depth \<noteq> 1" by simp_all
    let ?fn = "subdirs_fn w parentPath depth"
    obtain r dirs where wn: "walk_names ?fn [] cs [] = (r, dirs)"
      by (cases "walk_names ?fn [] cs []")
    from d have le: "depth < 0 \<or> int (length ([] :: string list)) \<le> depth" by auto
    from subdirs_walk(2)[OF wn pc _ d(1) le]
    have r: "r = WNil" and ds: "dirs = dirs_within_names (path_Join w) (lim_at depth 1) parentPath cs"
      by (simp_all add: walked_path_def)
    from wn r re have "filepath_Walk ?fn (Dir re me cs) [] = (WNil, dirs)"
      by (simp add: filepath_Walk_def subdirs_fn_root)
    with assms d have "GetSubDirectories w parentPath depth = (dirs, None)"
      by (simp add: GetSubDirectories_def)
    with ds d show ?thesis by (simp add: lim_at_def)
  qed
qed

theorem C9_GetSubDirectories_witness:
  "plain tree9 \<and>
   GetSubDirectories w9 ''/data/p'' 0 = ([''/data/p''], None) \<and>
   GetSubDirectories w9 ''/data/p'' 1 = ([''/data/p/a'', ''/data/p/b''], None) \<and>
   GetSubDirectories w9 ''/data/p'' (- 1) =
     ([''/data/p/a'', ''/data/p/a/x'', ''/data/p/a/x/deep'', ''/data/p/b''], None) \<and>
   GetSubDirectories w9 ''/data/p'' 2 = ([''/data/p/a'', ''/data/p/a/x'', ''/data/p/b''], None)"
proof -
  let ?cs = "[(''a'', Dir None None [(''f.txt'', reg 1),
                            (''x'', Dir None None [(''deep'', Dir None None [])])]),
      (''b'', Dir None None []),
      (''c.txt'', reg 2)]"
  have l: "fs_lookup w9 ''/data/p'' = Dir None None ?cs"
    by (simp add: w9_def demo_world_def at_path_def tree9_def)
  have p: "plain (Dir None None ?cs)" by code_simp
  have p9: "plain tree9" using p by (simp add: tree9_def)
  have j: "path_Join w9 = demo_Join" by (simp add: w9_def demo_world_def)
  have c1: "child_dirs demo_Join ''/data/p'' ?cs = [''/data/p/a'', ''/data/p/b'']" by code_simp
  have c2: "dirs_within_names demo_Join None ''/data/p'' ?cs =
      [''/data/p/a'', ''/data/p/a/x'', ''/data/p/a/x/deep'', ''/data/p/b'']" by code_simp
  have c3: "dirs_within_names demo_Join (Some (nat 2)) ''/data/p'' ?cs =
      [''/data/p/a'', ''/data/p/a/x'', ''/data/p/b'']" by code_simp
  note c9 = C9_GetSubDirectories_by_depth[OF l, THEN conjunct2, THEN conjunct2, THEN mp, OF p,
      THEN conjunct1]
  from C9_GetSubDirectories_by_depth[OF l, THEN conjunct1]
  have d0: "GetSubDirectories w9 ''/data/p'' 0 = ([''/data/p''], None)" by simp
  from c9[of 1] c1 j
  have d1: "GetSubDirectories w9 ''/data/p'' 1 = ([''/data/p/a'', ''/data/p/b''], None)"
    by (simp del: dirs_within.simps dirs_within_names.simps)
  from c9[of "- 1"] c2 j
  have d2: "GetSubDirectories w9 ''/data/p'' (- 1) =
     ([''/data/p/a'', ''/data/p/a/x'', ''/data/p/a/x/deep'', ''/data/p/b''], None)"
    by (simp del: dirs_within.simps dirs_within_names.simps)
  from c9[of 2] c3 j
  have d3: "GetSubDirectories w9 ''/data/p'' 2 =
     ([''/data/p/a'', ''/data/p/a/x'', ''/data/p/b''], None)"
    by (simp del: dirs_within.simps dirs_within_names.simps)
  show ?thesis by (intro conjI) (rule p9 d0 d1 d2 d3)+
qed

end
